theory Spec2Isabelle
  imports Main "HOL-Library.Sublist" "HOL-Library.Char_ord" "HOL-Library.List_Lexorder"
    "HOL-Library.Multiset"
begin

section \<open>Data model (types.ts)\<close>

text \<open>
  The interfaces \<open>Commit\<close>, \<open>Contribution\<close> and \<open>GitHubEvent\<close>. The commits of an
  event's payload are a record of their own; \<open>payload.commits\<close> and \<open>actor\<close> are optional
  in the source and are options here. Timestamps stay the strings the source keeps.
\<close>

record Commit =
  hash :: string
  message :: string
  author :: string
  timestamp :: string

record Contribution =
  repo :: string
  commits :: "Commit list"

record PayloadCommit =
  sha :: string
  commit_message :: string
  author_name :: string
  author_email :: "string option"

record GitHubEvent =
  created_at :: string
  event_type :: string
  repo_name :: string
  payload_commits :: "PayloadCommit list option"
  actor_login :: "string option"

section \<open>Dates\<close>

text \<open>
  A JavaScript \<open>Date\<close> is a number of milliseconds since the epoch, or NaN. Wherever the
  source parses a string (\<open>new Date(s)\<close>), the model takes the parser as a parameter
  \<open>parse\<close> of type \<open>string \<Rightarrow> int option\<close>, with \<open>None\<close> for an invalid date.
  \<open>isoParse\<close> below is the parser used at concrete inputs: the two UTC forms of ISO-8601
  that the GitHub API and \<open>toISOString\<close> produce, \<open>YYYY-MM-DDTHH:MM:SSZ\<close> and
  \<open>YYYY-MM-DDTHH:MM:SS.sssZ\<close>.
\<close>

definition digitVal :: "char \<Rightarrow> nat option" where
  "digitVal c =
     (let n = (of_char c :: nat) in if 48 \<le> n \<and> n \<le> 57 then Some (n - 48) else None)"

fun readNat :: "nat \<Rightarrow> string \<Rightarrow> nat option" where
  "readNat acc [] = Some acc"
| "readNat acc (c # cs) =
     (case digitVal c of None \<Rightarrow> None | Some d \<Rightarrow> readNat (10 * acc + d) cs)"

definition field :: "nat \<Rightarrow> nat \<Rightarrow> string \<Rightarrow> nat option" where
  "field i n s = readNat 0 (take n (drop i s))"

definition isLeap :: "int \<Rightarrow> bool" where
  "isLeap y = (if y mod 400 = 0 then True else if y mod 100 = 0 then False else y mod 4 = 0)"

definition daysInMonth :: "int \<Rightarrow> int \<Rightarrow> int" where
  "daysInMonth y m =
     (if m = 2 then (if isLeap y then 29 else 28)
      else if m = 4 \<or> m = 6 \<or> m = 9 \<or> m = 11 then 30 else 31)"

definition daysFromCivil :: "int \<Rightarrow> int \<Rightarrow> int \<Rightarrow> int" where
  "daysFromCivil y m d =
     (let y' = (if m \<le> 2 then y - 1 else y);
          era = y' div 400;
          yoe = y' - era * 400;
          mp = (if m > 2 then m - 3 else m + 9);
          doy = (153 * mp + 2) div 5 + d - 1;
          doe = yoe * 365 + yoe div 4 - yoe div 100 + doy
      in era * 146097 + doe - 719468)"

definition msPerDay :: int where
  "msPerDay = 86400000"

definition utcMillis :: "int \<Rightarrow> int \<Rightarrow> int \<Rightarrow> int \<Rightarrow> int \<Rightarrow> int \<Rightarrow> int \<Rightarrow> int option" where
  "utcMillis y mo d h mi s ms =
     (if 1 \<le> mo \<and> mo \<le> 12 \<and> 1 \<le> d \<and> d \<le> daysInMonth y mo \<and> h \<le> 23 \<and> mi \<le> 59 \<and> s \<le> 59
      then Some (daysFromCivil y mo d * msPerDay + ((h * 60 + mi) * 60 + s) * 1000 + ms)
      else None)"

definition isoShape :: "string \<Rightarrow> bool" where
  "isoShape s =
     ((length s = 20 \<or> (length s = 24 \<and> s ! 19 = CHR ''.''))
      \<and> s ! 4 = CHR ''-'' \<and> s ! 7 = CHR ''-'' \<and> s ! 10 = CHR ''T''
      \<and> s ! 13 = CHR '':'' \<and> s ! 16 = CHR '':'' \<and> s ! (length s - 1) = CHR ''Z'')"

definition isoParse :: "string \<Rightarrow> int option" where
  "isoParse s =
     (if isoShape s then
        (case (field 0 4 s, field 5 2 s, field 8 2 s, field 11 2 s, field 14 2 s, field 17 2 s,
               (if length s = 24 then field 20 3 s else Some 0)) of
           (Some y, Some mo, Some d, Some h, Some mi, Some sec, Some ms) \<Rightarrow>
              utcMillis (int y) (int mo) (int d) (int h) (int mi) (int sec) (int ms)
         | _ \<Rightarrow> None)
      else None)"

text \<open>
  \<open>setHours(h, m, s, ms)\<close> works in local time. The model fixes the local zone as an
  offset \<open>off\<close> in milliseconds (local = UTC + \<open>off\<close>), constant over the day in question.
\<close>

definition setHours :: "int \<Rightarrow> int \<Rightarrow> int \<Rightarrow> int \<Rightarrow> int \<Rightarrow> int \<Rightarrow> int" where
  "setHours off t h m s ms =
     (let l = t + off in l - l mod msPerDay + ((h * 60 + m) * 60 + s) * 1000 + ms - off)"

definition getStartOfDay :: "int \<Rightarrow> int \<Rightarrow> int" where
  "getStartOfDay off date = setHours off date 0 0 0 0"

definition getEndOfDay :: "int \<Rightarrow> int \<Rightarrow> int" where
  "getEndOfDay off date = setHours off date 23 59 59 999"

section \<open>Reporter.sortAndDedup (src/services/Reporter.ts)\<close>

text \<open>
  \<open>[...commits].sort((a, b) => new Date(b.timestamp).getTime() - new Date(a.timestamp).getTime())\<close>:
  the comparator is \<open>compareFn\<close>; a NaN result counts as \<open>+0\<close>, as the language's
  SortCompare has it. \<open>Array.prototype.sort\<close> is stable, so it is modelled as the stable
  insertion sort under the comparator (\<open>a\<close> goes before the first \<open>b\<close> with
  \<open>compareFn a b \<le> 0\<close>). Where some timestamp is invalid the comparator is not consistent
  and the language leaves the order to the implementation; the theorems below that depend
  on the order are about timestamps that parse.
\<close>

definition compareFn :: "(string \<Rightarrow> int option) \<Rightarrow> Commit \<Rightarrow> Commit \<Rightarrow> int" where
  "compareFn parse a b =
     (case (parse (timestamp b), parse (timestamp a)) of
        (Some tb, Some ta) \<Rightarrow> tb - ta
      | _ \<Rightarrow> 0)"

fun insertBy :: "('a \<Rightarrow> 'a \<Rightarrow> int) \<Rightarrow> 'a \<Rightarrow> 'a list \<Rightarrow> 'a list" where
  "insertBy cmp x [] = [x]"
| "insertBy cmp x (y # ys) = (if cmp x y \<le> 0 then x # y # ys else y # insertBy cmp x ys)"

definition sortBy :: "('a \<Rightarrow> 'a \<Rightarrow> int) \<Rightarrow> 'a list \<Rightarrow> 'a list" where
  "sortBy cmp xs = foldr (insertBy cmp) xs []"

text \<open>
  \<open>new Map(entries)\<close> sets the entries one after the other. \<open>Map.prototype.set\<close> on a key
  that is present replaces the value and leaves the key at its place in the iteration
  order; on a new key it appends. \<open>values()\<close> iterates in that order.
\<close>

fun mapSet :: "('k \<times> 'v) list \<Rightarrow> 'k \<Rightarrow> 'v \<Rightarrow> ('k \<times> 'v) list" where
  "mapSet [] k v = [(k, v)]"
| "mapSet ((k', v') # m) k v = (if k' = k then (k', v) # m else (k', v') # mapSet m k v)"

definition newMap :: "('k \<times> 'v) list \<Rightarrow> ('k \<times> 'v) list" where
  "newMap entries = foldl (\<lambda>m (k, v). mapSet m k v) [] entries"

definition mapValues :: "('k \<times> 'v) list \<Rightarrow> 'v list" where
  "mapValues m = map snd m"

definition sortAndDedup :: "(string \<Rightarrow> int option) \<Rightarrow> Commit list \<Rightarrow> Commit list" where
  "sortAndDedup parse cs =
     (let sorted = sortBy (compareFn parse) cs
      in mapValues (newMap (map (\<lambda>c. (hash c, c)) sorted)))"

section \<open>EODProcessor (src/services/EODProcessor.ts)\<close>

text \<open>
  The class that \<open>src/main.ts\<close> imports: its \<open>process\<close> tests
  \<open>targetUsers.length === 0\<close> in the per-commit filter and sorts the Contributions by
  repository name before it returns. (The older copy of the class at the root of the
  repository has neither; its \<open>isDateInRange\<close> and its event filter are the same.)
\<close>

text \<open>
  The processor's fields, as its constructor copies them from the configuration. \<open>date\<close> is
  a valid \<open>Date\<close> (configuration loading replaces an invalid one by today), so it is a
  number of milliseconds.
\<close>

record EODProcessorConfig =
  targetRepos :: "string list"
  targetUsers :: "string list"
  date :: int
  debug :: bool

text \<open>
  \<open>isDateInRange\<close>: \<open>eventDate >= start && eventDate <= end\<close>; every comparison with an
  invalid date is false.
\<close>

definition isDateInRange ::
  "(string \<Rightarrow> int option) \<Rightarrow> int \<Rightarrow> EODProcessorConfig \<Rightarrow> string \<Rightarrow> bool" where
  "isDateInRange parse off cfg eventDateStr =
     (let start = setHours off (date cfg) 0 0 0 0;
          end = setHours off (date cfg) 23 59 59 999
      in case parse eventDateStr of
           None \<Rightarrow> False
         | Some eventDate \<Rightarrow> eventDate \<ge> start \<and> eventDate \<le> end)"

definition repoMatch :: "EODProcessorConfig \<Rightarrow> GitHubEvent \<Rightarrow> bool" where
  "repoMatch cfg event =
     (length (targetRepos cfg) = 0 \<or> repo_name event \<in> set (targetRepos cfg))"

definition userMatch :: "EODProcessorConfig \<Rightarrow> GitHubEvent \<Rightarrow> bool" where
  "userMatch cfg event =
     (length (targetUsers cfg) = 0
      \<or> (case payload_commits event of
            None \<Rightarrow> False
          | Some cs \<Rightarrow> list_ex (\<lambda>c. author_name c \<in> set (targetUsers cfg)) cs)
      \<or> (case actor_login event of
            None \<Rightarrow> False
          | Some login \<Rightarrow> login \<in> set (targetUsers cfg)))"

text \<open>The callback of \<open>events.filter\<close>, with its two early returns.\<close>

definition keepEvent ::
  "(string \<Rightarrow> int option) \<Rightarrow> int \<Rightarrow> EODProcessorConfig \<Rightarrow> GitHubEvent \<Rightarrow> bool" where
  "keepEvent parse off cfg event =
     (if event_type event \<noteq> ''PushEvent'' then False
      else if isDateInRange parse off cfg (created_at event) then
        (repoMatch cfg event \<and> userMatch cfg event)
      else False)"

definition toCommit :: "GitHubEvent \<Rightarrow> PayloadCommit \<Rightarrow> Commit" where
  "toCommit event commit =
     \<lparr>hash = take 7 (sha commit),
      message = commit_message commit,
      author = author_name commit,
      timestamp = created_at event\<rparr>"

definition userCommits :: "EODProcessorConfig \<Rightarrow> GitHubEvent \<Rightarrow> PayloadCommit list \<Rightarrow> Commit list" where
  "userCommits cfg event cs =
     map (toCommit event)
       (filter (\<lambda>commit. length (targetUsers cfg) = 0
                         \<or> author_name commit \<in> set (targetUsers cfg)) cs)"

text \<open>
  \<open>contributions.find((c) => c.repo === repoName)\<close>, the push of a new entry when there is
  none, and \<open>repoEntry.commits.push(...userCommits)\<close> on the entry found or pushed.
\<close>

fun pushCommits :: "string \<Rightarrow> Commit list \<Rightarrow> Contribution list \<Rightarrow> Contribution list" where
  "pushCommits repoName ucs [] = [\<lparr>repo = repoName, commits = [] @ ucs\<rparr>]"
| "pushCommits repoName ucs (c # contributions) =
     (if repo c = repoName then c\<lparr>commits := commits c @ ucs\<rparr> # contributions
      else c # pushCommits repoName ucs contributions)"

text \<open>One round of the loop over the filtered events, with its two \<open>continue\<close>s.\<close>

definition processEvent ::
  "EODProcessorConfig \<Rightarrow> Contribution list \<Rightarrow> GitHubEvent \<Rightarrow> Contribution list" where
  "processEvent cfg contributions event =
     (case payload_commits event of
        None \<Rightarrow> contributions
      | Some cs \<Rightarrow>
          (let ucs = userCommits cfg event cs
           in if length ucs = 0 then contributions
              else pushCommits (repo_name event) ucs contributions))"

text \<open>The loop over the filtered events: \<open>contributions\<close> as it stands before the sort.\<close>

definition groupContributions ::
  "(string \<Rightarrow> int option) \<Rightarrow> int \<Rightarrow> EODProcessorConfig \<Rightarrow> GitHubEvent list \<Rightarrow> Contribution list" where
  "groupContributions parse off cfg events =
     (let filteredEvents = filter (keepEvent parse off cfg) events
      in foldl (processEvent cfg) [] filteredEvents)"

text \<open>
  \<open>contributions.sort((a, b) => a.repo.localeCompare(b.repo))\<close>, then the return.
  \<open>String.prototype.localeCompare\<close> is the runtime's collation: it is the parameter
  \<open>localeCompare\<close>, a negative, zero or positive number for two strings. The sort is the
  stable sort \<open>sortBy\<close> of the Reporter section.
\<close>

definition process ::
  "(string \<Rightarrow> int option) \<Rightarrow> (string \<Rightarrow> string \<Rightarrow> int) \<Rightarrow> int \<Rightarrow> EODProcessorConfig
   \<Rightarrow> GitHubEvent list \<Rightarrow> Contribution list" where
  "process parse localeCompare off cfg events =
     (let contributions = groupContributions parse off cfg events
      in sortBy (\<lambda>a b. localeCompare (repo a) (repo b)) contributions)"

section \<open>GitHubService (src/services/GitHubService.ts)\<close>

text \<open>
  What the source throws: \<open>new Error(message)\<close>, or the HTTP client's error with the
  response status when there was a response.
\<close>

datatype error = Error string | AxiosError "nat option"

text \<open>
  A commit object of the REST API, with the fields the program reads: \<open>sha\<close>,
  \<open>commit.message\<close>, \<open>commit.author.name\<close>, \<open>commit.author.email\<close> and \<open>author.login\<close>
  (\<open>author\<close> is null for a commit that matches no account).
\<close>

record ApiCommit =
  api_sha :: string
  api_message :: string
  api_author_name :: string
  api_author_email :: string
  api_author_login :: "string option"

text \<open>
  The remote API is a parameter: for each request the service sends, the response data or
  the error thrown. Every request made is recorded, in order, in a trace.
\<close>

datatype request =
    GetOrgRepos string
  | GetUserRepos
  | GetBranches string string
  | GetCommits string string string string string
  | GetUserPublicEvents string

record GitHubApi =
  orgRepos :: "string \<Rightarrow> error + string list"
  userRepos :: "error + string list"
  repoBranches :: "string \<Rightarrow> string \<Rightarrow> error + string list"
  repoCommits :: "string \<Rightarrow> string \<Rightarrow> string \<Rightarrow> string \<Rightarrow> string \<Rightarrow> error + ApiCommit list"
  userPublicEvents :: "string \<Rightarrow> error + GitHubEvent list"

text \<open>\<open>s.split(sep)\<close> for a one-character separator.\<close>

fun split :: "char \<Rightarrow> string \<Rightarrow> string list" where
  "split sep [] = [[]]"
| "split sep (c # cs) =
     (if c = sep then [] # split sep cs
      else (case split sep cs of
              [] \<Rightarrow> [[c]]
            | p # ps \<Rightarrow> (c # p) # ps))"

text \<open>
  \<open>const [owner, repo] = repoFullName.split('/'); if (!owner || !repo) throw ...\<close>:
  \<open>None\<close> where the source throws. (The source's variable \<open>repo\<close> is \<open>name\<close>
  here and below: \<open>repo\<close> is the field of a Contribution.)
\<close>

definition ownerRepo :: "string \<Rightarrow> (string \<times> string) option" where
  "ownerRepo repoFullName =
     (case split CHR ''/'' repoFullName of
        owner # name # _ \<Rightarrow> (if owner = [] \<or> name = [] then None else Some (owner, name))
      | _ \<Rightarrow> None)"

definition getBranchesForRepo :: "GitHubApi \<Rightarrow> string \<Rightarrow> request list \<times> (error + string list)" where
  "getBranchesForRepo api repoFullName =
     (case ownerRepo repoFullName of
        None \<Rightarrow> ([], Inl (Error (''Invalid repo format: '' @ repoFullName)))
      | Some (owner, name) \<Rightarrow> ([GetBranches owner name], repoBranches api owner name))"

text \<open>
  \<open>xs.slice(0, end)\<close>: a negative \<open>end\<close> counts from the end of the array.
\<close>

definition slice0 :: "'a list \<Rightarrow> int \<Rightarrow> 'a list" where
  "slice0 xs end =
     (let len = int (length xs);
          final = (if end < 0 then max (len + end) 0 else min end len)
      in take (nat final) xs)"

text \<open>
  The block of \<open>getCommitsForRepo\<close> that limits the number of branches when there
  are more than \<open>maxBranches\<close> (the same in both copies of the service).
  \<open>maxBranches\<close> is the integer that configuration loading read from \<open>MAX_BRANCHES\<close>.
\<close>

definition sampleBranches :: "string list \<Rightarrow> int \<Rightarrow> string list" where
  "sampleBranches branches maxBranches =
     (if int (length branches) > maxBranches then
        (let mainBranch = find (\<lambda>b. b = ''main'' \<or> b = ''master'') branches;
             otherBranches = filter (\<lambda>b. b \<noteq> ''main'' \<and> b \<noteq> ''master'') branches;
             branches1 = (case mainBranch of Some m \<Rightarrow> [m] | None \<Rightarrow> [])
         in branches1 @ slice0 otherBranches (maxBranches - int (length branches1)))
      else branches)"

text \<open>
  The merge: \<open>allCommits\<close> and the set \<open>processedCommits\<close> of the SHAs seen. A branch whose
  request fails is caught and skipped.
\<close>

definition addUnique :: "ApiCommit list \<times> string set \<Rightarrow> ApiCommit \<Rightarrow> ApiCommit list \<times> string set" where
  "addUnique st commit =
     (case st of (allCommits, processedCommits) \<Rightarrow>
        if api_sha commit \<in> processedCommits then st
        else (allCommits @ [commit], insert (api_sha commit) processedCommits))"

fun fetchBranches ::
  "GitHubApi \<Rightarrow> string \<Rightarrow> string \<Rightarrow> string \<Rightarrow> string \<Rightarrow> string list
   \<Rightarrow> ApiCommit list \<times> string set \<Rightarrow> request list \<times> (ApiCommit list \<times> string set)" where
  "fetchBranches api owner name since until [] st = ([], st)"
| "fetchBranches api owner name since until (branch # branches) st =
     (let st1 = (case repoCommits api owner name since until branch of
                   Inl _ \<Rightarrow> st
                 | Inr data \<Rightarrow> foldl addUnique st data);
          (tr, st2) = fetchBranches api owner name since until branches st1
      in (GetCommits owner name since until branch # tr, st2))"

definition getCommitsForRepo ::
  "GitHubApi \<Rightarrow> string \<Rightarrow> string \<Rightarrow> string \<Rightarrow> int \<Rightarrow> request list \<times> (error + ApiCommit list)" where
  "getCommitsForRepo api repoFullName since until maxBranches =
     (case ownerRepo repoFullName of
        None \<Rightarrow> ([], Inl (Error (''Invalid repo format: '' @ repoFullName)))
      | Some (owner, name) \<Rightarrow>
          (case getBranchesForRepo api repoFullName of
             (tr, Inl e) \<Rightarrow> (tr, Inl e)
           | (tr, Inr branches) \<Rightarrow>
               (let (tr1, st) =
                      fetchBranches api owner name since until
                        (sampleBranches branches maxBranches) ([], {})
                in (tr @ tr1, Inr (fst st)))))"

section \<open>Configuration and main (src/config/env.ts, src/main.ts)\<close>

text \<open>
  \<open>toISOString\<close> for the years 0000 to 9999: the civil date of the day number, then
  \<open>YYYY-MM-DDTHH:MM:SS.sssZ\<close>. The functions below take it as a parameter \<open>toISO\<close>.
\<close>

definition civilFromDays :: "int \<Rightarrow> int \<times> int \<times> int" where
  "civilFromDays z =
     (let z1 = z + 719468;
          era = z1 div 146097;
          doe = z1 - era * 146097;
          yoe = (doe - doe div 1460 + doe div 36524 - doe div 146096) div 365;
          y = yoe + era * 400;
          doy = doe - (365 * yoe + yoe div 4 - yoe div 100);
          mp = (5 * doy + 2) div 153;
          d = doy - (153 * mp + 2) div 5 + 1;
          m = (if mp < 10 then mp + 3 else mp - 9)
      in ((if m \<le> 2 then y + 1 else y), m, d))"

definition digitChar :: "int \<Rightarrow> char" where
  "digitChar n = char_of (48 + n mod 10)"

definition pad2 :: "int \<Rightarrow> string" where
  "pad2 n = [digitChar (n div 10), digitChar n]"

definition pad3 :: "int \<Rightarrow> string" where
  "pad3 n = [digitChar (n div 100), digitChar (n div 10), digitChar n]"

definition pad4 :: "int \<Rightarrow> string" where
  "pad4 n = [digitChar (n div 1000), digitChar (n div 100), digitChar (n div 10), digitChar n]"

definition toISOString :: "int \<Rightarrow> string" where
  "toISOString t =
     (let ms = t mod msPerDay
      in case civilFromDays (t div msPerDay) of (y, m, d) \<Rightarrow>
           pad4 y @ ''-'' @ pad2 m @ ''-'' @ pad2 d @ ''T'' @ pad2 (ms div 3600000) @ '':''
           @ pad2 (ms div 60000 mod 60) @ '':'' @ pad2 (ms div 1000 mod 60) @ ''.''
           @ pad3 (ms mod 1000) @ ''Z'')"

text \<open>
  \<open>AppConfig\<close> has the processor's four fields and more, so it is the extension of
  \<open>EODProcessorConfig\<close> by the others. The output options (\<open>outputFormat\<close>, \<open>noFiles\<close>,
  \<open>outputDir\<close>, \<open>output\<close>) steer the rendering only and are left out.
\<close>

record AppConfig = EODProcessorConfig +
  token :: string
  organization :: "string option"
  checkPreviousDay :: bool
  maxBranches :: int

text \<open>
  The environment variables that \<open>loadAppConfig\<close> reads into those fields; \<open>None\<close> is
  an unset variable.
\<close>

record ProcessEnv =
  GITHUB_TOKEN :: "string option"
  TARGET_USERS :: "string option"
  TARGET_REPOS :: "string option"
  GITHUB_ORG :: "string option"
  DEBUG :: "string option"
  CHECK_PREVIOUS_DAY :: "string option"

text \<open>\<open>s.trim()\<close>, for the ASCII white space.\<close>

definition isSpace :: "char \<Rightarrow> bool" where
  "isSpace c = (c \<in> set [CHR '' '', CHR 0x09, CHR 0x0A, CHR 0x0B, CHR 0x0C, CHR 0x0D])"

definition trim :: "string \<Rightarrow> string" where
  "trim s = rev (dropWhile isSpace (rev (dropWhile isSpace s)))"

text \<open>\<open>raw.split(',').map((r) => r.trim()).filter(Boolean)\<close>, with \<open>raw = process.env.X || ''\<close>.\<close>

definition splitList :: "string option \<Rightarrow> string list" where
  "splitList var =
     (let raw = (case var of None \<Rightarrow> [] | Some s \<Rightarrow> s)
      in filter (\<lambda>r. r \<noteq> []) (map trim (split CHR '','' raw)))"

text \<open>
  \<open>loadAppConfig\<close> (the older \<open>main.ts\<close> has the same code as \<open>validateConfig\<close>). The
  date that the \<open>--date\<close>/\<open>TARGET_DATE\<close> logic chooses and the integer read from
  \<open>MAX_BRANCHES\<close> are taken as given (\<open>date0\<close>, \<open>maxBranches0\<close>).
\<close>

definition loadAppConfig :: "ProcessEnv \<Rightarrow> int \<Rightarrow> int \<Rightarrow> error + AppConfig" where
  "loadAppConfig env date0 maxBranches0 =
     (case GITHUB_TOKEN env of
        None \<Rightarrow> Inl (Error ''GITHUB_TOKEN is required'')
      | Some tok \<Rightarrow>
          if tok = [] then Inl (Error ''GITHUB_TOKEN is required'')
          else Inr \<lparr>targetRepos = splitList (TARGET_REPOS env),
                    targetUsers = splitList (TARGET_USERS env),
                    date = date0,
                    debug = (DEBUG env = Some ''true''),
                    token = tok,
                    organization = (case GITHUB_ORG env of
                                      None \<Rightarrow> None
                                    | Some org \<Rightarrow> if org = [] then None else Some org),
                    checkPreviousDay = (CHECK_PREVIOUS_DAY env = Some ''true''),
                    maxBranches = maxBranches0\<rparr>)"

text \<open>
  The block of \<open>main\<close> that resolves short repository names (\<open>src/main.ts\<close>, lines
  156 to 168):
  \<open>r.includes('/')\<close>, the throw when there is no prefix, the map to \<open>prefix/r\<close>.
\<close>

definition includesSlash :: "string \<Rightarrow> bool" where
  "includesSlash r = (CHR ''/'' \<in> set r)"

definition resolveShortNames :: "AppConfig \<Rightarrow> error + AppConfig" where
  "resolveShortNames config =
     (if list_ex (\<lambda>r. \<not> includesSlash r) (targetRepos config) then
        (case organization config of
           None \<Rightarrow> Inl (Error ''You used short repo names, but GITHUB_ORG is not set. Please set it in .env or use full repo names.'')
         | Some pre \<Rightarrow>
             if pre = [] then Inl (Error ''You used short repo names, but GITHUB_ORG is not set. Please set it in .env or use full repo names.'')
             else Inr (config\<lparr>targetRepos :=
                        map (\<lambda>r. if includesSlash r then r else pre @ ''/'' @ r) (targetRepos config)\<rparr>))
      else Inr config)"

subsection \<open>fetchEvents\<close>

text \<open>\<open>repos\<close> is a \<open>Set\<close>, iterated in insertion order.\<close>

definition setAdd :: "string list \<Rightarrow> string \<Rightarrow> string list" where
  "setAdd s r = (if r \<in> set s then s else s @ [r])"

definition isValidFullRepo :: "string \<Rightarrow> bool" where
  "isValidFullRepo r = (includesSlash r \<and> length (split CHR ''/'' r) = 2)"

text \<open>The event built for a repository with at least one commit.\<close>

definition synthEvent :: "string \<Rightarrow> string \<Rightarrow> ApiCommit list \<Rightarrow> GitHubEvent" where
  "synthEvent sinceISO r cs =
     \<lparr>created_at = sinceISO,
      event_type = ''PushEvent'',
      repo_name = r,
      payload_commits =
        Some (map (\<lambda>c. \<lparr>sha = api_sha c, commit_message = api_message c,
                         author_name = api_author_name c,
                         author_email = Some (api_author_email c)\<rparr>) cs),
      actor_login = (case cs of [] \<Rightarrow> None | c0 # _ \<Rightarrow> api_author_login c0)\<rparr>"

text \<open>
  The loop over the repositories: a failed aggregation is caught (and warned about unless
  the status is 404) and the repository is skipped.
\<close>

fun repoEvents ::
  "GitHubApi \<Rightarrow> string \<Rightarrow> string \<Rightarrow> int \<Rightarrow> string list \<Rightarrow> request list \<times> GitHubEvent list" where
  "repoEvents api sinceISO untilISO maxB [] = ([], [])"
| "repoEvents api sinceISO untilISO maxB (r # rs) =
     (let (tr, res) = getCommitsForRepo api r sinceISO untilISO maxB;
          evs = (case res of
                   Inl _ \<Rightarrow> []
                 | Inr cs \<Rightarrow> if length cs > 0 then [synthEvent sinceISO r cs] else []);
          (tr1, evs1) = repoEvents api sinceISO untilISO maxB rs
      in (tr @ tr1, evs @ evs1))"

text \<open>The loop over the target users: a failed request is caught.\<close>

fun userEvents :: "GitHubApi \<Rightarrow> string list \<Rightarrow> request list \<times> GitHubEvent list" where
  "userEvents api [] = ([], [])"
| "userEvents api (u # us) =
     (let evs = (case userPublicEvents api u of Inl _ \<Rightarrow> [] | Inr es \<Rightarrow> es);
          (tr1, evs1) = userEvents api us
      in (GetUserPublicEvents u # tr1, evs @ evs1))"

text \<open>
  \<open>fetchEvents\<close>. Each of the two listings of repositories is inside a \<open>try\<close>: a failed
  listing is warned about and adds nothing. \<open>since\<close> is \<open>getStartOfDay(date)\<close> and
  \<open>until\<close> is \<open>getEndOfDay(since)\<close>. Nothing is thrown out of the function.
\<close>

definition fetchEvents ::
  "GitHubApi \<Rightarrow> (int \<Rightarrow> string) \<Rightarrow> int \<Rightarrow> string list \<Rightarrow> string list \<Rightarrow> string option
   \<Rightarrow> int \<Rightarrow> int \<Rightarrow> request list \<times> GitHubEvent list" where
  "fetchEvents api toISO off users targets org d maxB =
     (let since = getStartOfDay off d;
          until = getEndOfDay off since;
          sinceISO = toISO since;
          untilISO = toISO until;
          (tr0, repos0) = (case org of
                             None \<Rightarrow> ([], [])
                           | Some og \<Rightarrow>
                               if og = [] then ([], [])
                               else ([GetOrgRepos og],
                                     (case orgRepos api og of
                                        Inl _ \<Rightarrow> []
                                      | Inr rs \<Rightarrow> foldl setAdd [] rs)));
          repos1 = (case userRepos api of
                      Inl _ \<Rightarrow> repos0
                    | Inr rs \<Rightarrow> foldl setAdd repos0 rs);
          repos2 = foldl setAdd repos1
                     (filter isValidFullRepo (filter (\<lambda>r. r \<noteq> []) targets));
          (tr1, evs1) = repoEvents api sinceISO untilISO maxB repos2;
          (tr2, evs2) = userEvents api users
      in (tr0 @ [GetUserRepos] @ tr1 @ tr2, evs1 @ evs2))"

subsection \<open>main\<close>

text \<open>
  What a run did: the requests sent, the exit code (1 from the \<open>catch\<close> of \<open>main()\<close>, 0
  otherwise), and the date and Contribution list handed to the Reporter (\<open>reporter.print\<close>
  and \<open>reporter.writeToFile\<close>), if any.
\<close>

record Run =
  requests :: "request list"
  exitCode :: nat
  reported :: "(int \<times> Contribution list) option"

definition processorOf :: "AppConfig \<Rightarrow> int \<Rightarrow> EODProcessorConfig" where
  "processorOf config d =
     \<lparr>targetRepos = targetRepos config, targetUsers = targetUsers config,
      date = d, debug = debug config\<rparr>"

text \<open>\<open>getPreviousDay\<close>: \<open>setDate(getDate() - 1)\<close>, the same local time on the day before.\<close>

definition getPreviousDay :: "int \<Rightarrow> int" where
  "getPreviousDay d = d - msPerDay"

text \<open>
  \<open>main\<close> from the creation of the service on, for a configuration already resolved.
  On the day before, too, the list goes to \<open>reporter.print\<close>, \<open>reporter.writeToFile\<close>
  and \<open>reporter.generateMinimalEODReport\<close>.
\<close>

definition runPipeline ::
  "(string \<Rightarrow> int option) \<Rightarrow> (string \<Rightarrow> string \<Rightarrow> int) \<Rightarrow> (int \<Rightarrow> string) \<Rightarrow> int
   \<Rightarrow> GitHubApi \<Rightarrow> AppConfig \<Rightarrow> Run" where
  "runPipeline parse localeCompare toISO off api config =
     (case fetchEvents api toISO off (targetUsers config) (targetRepos config)
             (organization config) (date config) (maxBranches config) of
        (tr, events) \<Rightarrow>
          (let contributions =
                 process parse localeCompare off (processorOf config (date config)) events
           in if length contributions = 0 \<and> checkPreviousDay config then
                (let prevDate = getPreviousDay (date config)
                 in case fetchEvents api toISO off (targetUsers config) (targetRepos config)
                           (organization config) prevDate (maxBranches config) of
                      (tr1, prevEvents) \<Rightarrow>
                        (let altContribs =
                               process parse localeCompare off (processorOf config prevDate)
                                 prevEvents
                         in if length altContribs > 0 then
                              \<lparr>requests = tr @ tr1, exitCode = 0,
                               reported = Some (prevDate, altContribs)\<rparr>
                            else \<lparr>requests = tr @ tr1, exitCode = 0, reported = None\<rparr>))
              else if length contributions = 0 then
                \<lparr>requests = tr, exitCode = 0, reported = None\<rparr>
              else \<lparr>requests = tr, exitCode = 0, reported = Some (date config, contributions)\<rparr>))"

definition main ::
  "(string \<Rightarrow> int option) \<Rightarrow> (string \<Rightarrow> string \<Rightarrow> int) \<Rightarrow> (int \<Rightarrow> string) \<Rightarrow> int
   \<Rightarrow> GitHubApi \<Rightarrow> ProcessEnv \<Rightarrow> int \<Rightarrow> int \<Rightarrow> Run" where
  "main parse localeCompare toISO off api env date0 maxBranches0 =
     (case loadAppConfig env date0 maxBranches0 of
        Inl e \<Rightarrow> \<lparr>requests = [], exitCode = 1, reported = None\<rparr>
      | Inr config0 \<Rightarrow>
          (case resolveShortNames config0 of
             Inl e \<Rightarrow> \<lparr>requests = [], exitCode = 1, reported = None\<rparr>
           | Inr config \<Rightarrow> runPipeline parse localeCompare toISO off api config))"

section \<open>Example inputs\<close>

text \<open>
  Inputs for the concrete evaluations below, written as abbreviations: they stand for the
  literal terms. The run is for 15 January 2024 (\<open>date\<close> is 2024-01-15T12:00:00Z).
\<close>

abbreviation noon :: int where
  "noon \<equiv> 1705320000000"

abbreviation cfgAll :: EODProcessorConfig where
  "cfgAll \<equiv> \<lparr>targetRepos = [], targetUsers = [], date = noon, debug = False\<rparr>"

abbreviation cfgAlice :: EODProcessorConfig where
  "cfgAlice \<equiv> \<lparr>targetRepos = [], targetUsers = [''alice''], date = noon, debug = False\<rparr>"

abbreviation pcAlice :: PayloadCommit where
  "pcAlice \<equiv> \<lparr>sha = ''abc1234def5678abc1234def5678abc1234def56'', commit_message = ''fix login'',
     author_name = ''alice'', author_email = Some ''alice@example.com''\<rparr>"

abbreviation pcBob :: PayloadCommit where
  "pcBob \<equiv> \<lparr>sha = ''0123456789abcdef0123456789abcdef01234567'', commit_message = ''add cache'',
     author_name = ''bob'', author_email = Some ''bob@example.com''\<rparr>"

abbreviation pushAt :: "string \<Rightarrow> string \<Rightarrow> PayloadCommit list \<Rightarrow> GitHubEvent" where
  "pushAt t r pcs \<equiv>
     \<lparr>created_at = t, event_type = ''PushEvent'', repo_name = r,
      payload_commits = Some pcs, actor_login = None\<rparr>"

abbreviation acOf :: "string \<Rightarrow> string \<Rightarrow> ApiCommit" where
  "acOf s m \<equiv>
     \<lparr>api_sha = s, api_message = m, api_author_name = ''alice'',
      api_author_email = ''alice@example.com'', api_author_login = Some ''alice''\<rparr>"

abbreviation c1 :: ApiCommit where
  "c1 \<equiv> acOf ''1111111aaaaaaaaaaaaaaaaaaaaaaaaaaaaaaaaa'' ''first''"

abbreviation c2 :: ApiCommit where
  "c2 \<equiv> acOf ''2222222bbbbbbbbbbbbbbbbbbbbbbbbbbbbbbbbb'' ''second''"

abbreviation c3 :: ApiCommit where
  "c3 \<equiv> acOf ''3333333ccccccccccccccccccccccccccccccccc'' ''third''"

text \<open>
  A remote with one repository \<open>acme/api\<close> of the account, with branches \<open>main\<close>,
  \<open>dev\<close> and \<open>old\<close>: \<open>main\<close> holds \<open>c1\<close> and \<open>c2\<close>, \<open>dev\<close> holds \<open>c2\<close> and \<open>c3\<close>,
  and the request for \<open>old\<close> fails.
\<close>

abbreviation apiEx :: GitHubApi where
  "apiEx \<equiv>
     \<lparr>orgRepos = (\<lambda>org. Inl (AxiosError (Some 404))),
      userRepos = Inr [''acme/api''],
      repoBranches = (\<lambda>owner name.
         if owner = ''acme'' \<and> name = ''api'' then Inr [''main'', ''dev'', ''old'']
         else Inl (AxiosError (Some 404))),
      repoCommits = (\<lambda>owner name since until branch.
         if branch = ''main'' then Inr [c1, c2]
         else if branch = ''dev'' then Inr [c2, c3]
         else Inl (AxiosError (Some 500))),
      userPublicEvents = (\<lambda>user. Inr [])\<rparr>"

text \<open>
  A remote with two repositories of the account, listed as \<open>acme/web\<close> then \<open>acme/api\<close>,
  each with the one branch \<open>main\<close>: \<open>acme/web\<close> holds \<open>c1\<close>, \<open>acme/api\<close> holds \<open>c2\<close>
  and \<open>c3\<close>.
\<close>

abbreviation apiTwo :: GitHubApi where
  "apiTwo \<equiv>
     \<lparr>orgRepos = (\<lambda>org. Inl (AxiosError (Some 404))),
      userRepos = Inr [''acme/web'', ''acme/api''],
      repoBranches = (\<lambda>owner name. Inr [''main'']),
      repoCommits = (\<lambda>owner name since until branch.
         if name = ''web'' then Inr [c1] else Inr [c2, c3]),
      userPublicEvents = (\<lambda>user. Inr [])\<rparr>"

abbreviation envAlice :: ProcessEnv where
  "envAlice \<equiv>
     \<lparr>GITHUB_TOKEN = Some ''ghp_example'', TARGET_USERS = Some ''alice'', TARGET_REPOS = None,
      GITHUB_ORG = None, DEBUG = None, CHECK_PREVIOUS_DAY = None\<rparr>"

abbreviation envShort :: ProcessEnv where
  "envShort \<equiv>
     \<lparr>GITHUB_TOKEN = Some ''ghp_example'', TARGET_USERS = Some ''alice'',
      TARGET_REPOS = Some ''myrepo'', GITHUB_ORG = None, DEBUG = None,
      CHECK_PREVIOUS_DAY = None\<rparr>"

abbreviation envShortOrg :: ProcessEnv where
  "envShortOrg \<equiv>
     \<lparr>GITHUB_TOKEN = Some ''ghp_example'', TARGET_USERS = Some ''alice'',
      TARGET_REPOS = Some ''myrepo, acme/api'', GITHUB_ORG = Some ''acme'', DEBUG = None,
      CHECK_PREVIOUS_DAY = None\<rparr>"

text \<open>
  The comparator of the case-sensitive lexicographic order (by character code), for the
  parameter \<open>localeCompare\<close> at concrete inputs.
\<close>

definition lexCompare :: "string \<Rightarrow> string \<Rightarrow> int" where
  "lexCompare a b = (if a < b then - 1 else if a = b then 0 else 1)"

text \<open>
  A remote with the one repository \<open>acme/api\<close>, branch \<open>main\<close>, holding \<open>c2\<close> and
  \<open>c3\<close>; the public events of \<open>alice\<close> are one push to \<open>acme/api\<close> at 10:00.
\<close>

abbreviation apiPub :: GitHubApi where
  "apiPub \<equiv>
     \<lparr>orgRepos = (\<lambda>org. Inl (AxiosError (Some 404))),
      userRepos = Inr [''acme/api''],
      repoBranches = (\<lambda>owner name. Inr [''main'']),
      repoCommits = (\<lambda>owner name since until branch. Inr [c2, c3]),
      userPublicEvents = (\<lambda>user. Inr [pushAt ''2024-01-15T10:00:00Z'' ''acme/api'' [pcAlice]])\<rparr>"

abbreviation envAll :: ProcessEnv where
  "envAll \<equiv>
     \<lparr>GITHUB_TOKEN = Some ''ghp_example'', TARGET_USERS = None, TARGET_REPOS = None,
      GITHUB_ORG = None, DEBUG = None, CHECK_PREVIOUS_DAY = None\<rparr>"

section \<open>Lemmas: the sort, the grouping loop, the fetched events\<close>

subsection \<open>The stable sort\<close>

lemma mset_insertBy: "mset (insertBy cmp x xs) = add_mset x (mset xs)"
  by (induction xs) auto

lemma mset_sortBy: "mset (sortBy cmp xs) = mset xs"
  by (induction xs) (simp_all add: sortBy_def mset_insertBy)

lemma set_sortBy: "set (sortBy cmp xs) = set xs"
  using mset_sortBy [of cmp xs] by (metis set_mset_mset)




lemma insertBy_head:
  "(\<forall>y\<in>set ys. cmp x y \<le> 0) \<Longrightarrow> insertBy cmp x ys = x # ys"
  by (cases ys) simp_all

lemma sortBy_noop:
  "(\<forall>x\<in>set xs. \<forall>y\<in>set xs. cmp x y \<le> 0) \<Longrightarrow> sortBy cmp xs = xs"
proof (induction xs)
  case Nil
  then show ?case by (simp add: sortBy_def)
next
  case (Cons x xs)
  then have "sortBy cmp xs = xs" by simp
  then have "sortBy cmp (x # xs) = insertBy cmp x xs" by (simp add: sortBy_def)
  also have "\<dots> = x # xs" using Cons.prems by (intro insertBy_head) simp
  finally show ?case .
qed

lemma compareFn_same_timestamp:
  "timestamp a = timestamp b \<Longrightarrow> compareFn parse a b = 0"
  by (simp add: compareFn_def split: option.splits)

lemma sortBy_same_timestamp:
  assumes "\<forall>k\<in>set ks. timestamp k = ts"
  shows "sortBy (compareFn parse) ks = ks"
proof (rule sortBy_noop)
  show "\<forall>x\<in>set ks. \<forall>y\<in>set ks. compareFn parse x y \<le> 0"
    using assms by (simp add: compareFn_same_timestamp)
qed

subsection \<open>The grouping loop\<close>

lemma endOfDay_span: "setHours off d 23 59 59 999 = setHours off d 0 0 0 0 + 86399999"
  by (simp add: setHours_def Let_def)

lemma pushCommits_nonempty:
  "ucs \<noteq> [] \<Longrightarrow> \<forall>c\<in>set cs. commits c \<noteq> [] \<Longrightarrow> \<forall>c\<in>set (pushCommits r ucs cs). commits c \<noteq> []"
  by (induction cs) auto

lemma processEvent_nonempty:
  assumes "\<forall>c\<in>set cs. commits c \<noteq> []"
  shows "\<forall>c\<in>set (processEvent cfg cs e). commits c \<noteq> []"
proof (cases "payload_commits e")
  case None
  then show ?thesis using assms by (simp add: processEvent_def)
next
  case (Some pcs)
  show ?thesis
  proof (cases "userCommits cfg e pcs = []")
    case True
    then show ?thesis using assms Some by (simp add: processEvent_def)
  next
    case False
    then have "\<forall>c\<in>set (pushCommits (repo_name e) (userCommits cfg e pcs) cs). commits c \<noteq> []"
      using assms by (rule pushCommits_nonempty)
    then show ?thesis using Some False by (simp add: processEvent_def)
  qed
qed

lemma foldl_processEvent_nonempty:
  "\<forall>c\<in>set cs. commits c \<noteq> [] \<Longrightarrow> \<forall>c\<in>set (foldl (processEvent cfg) cs es). commits c \<noteq> []"
proof (induction es arbitrary: cs)
  case Nil
  then show ?case by simp
next
  case (Cons e es)
  have "\<forall>c\<in>set (processEvent cfg cs e). commits c \<noteq> []"
    using Cons.prems by (rule processEvent_nonempty)
  then show ?case using Cons.IH by simp
qed

lemma processEvent_no_userCommits:
  "payload_commits e = Some pcs \<Longrightarrow> userCommits cfg e pcs = [] \<Longrightarrow> processEvent cfg cs e = cs"
  by (simp add: processEvent_def)

lemma map_repo_pushCommits: "map repo (pushCommits r ucs cs) = setAdd (map repo cs) r"
  by (induction cs) (auto simp: setAdd_def)

lemma map_repo_processEvent:
  "map repo (processEvent cfg cs e)
     = (if (case payload_commits e of None \<Rightarrow> False | Some pcs \<Rightarrow> userCommits cfg e pcs \<noteq> [])
        then setAdd (map repo cs) (repo_name e) else map repo cs)"
  by (simp add: processEvent_def map_repo_pushCommits Let_def split: option.splits)

lemma map_repo_foldl_processEvent:
  "map repo (foldl (processEvent cfg) cs es)
     = foldl setAdd (map repo cs)
         (map repo_name
            (filter (\<lambda>e. case payload_commits e of None \<Rightarrow> False
                            | Some pcs \<Rightarrow> userCommits cfg e pcs \<noteq> []) es))"
proof (induction es arbitrary: cs)
  case Nil
  then show ?case by simp
next
  case (Cons e es)
  show ?case
    by (simp add: Cons.IH map_repo_processEvent)
qed

lemma foldl_setAdd_first_seen: "foldl setAdd [] xs = rev (remdups (rev xs))"
proof (induction xs rule: rev_induct)
  case Nil
  then show ?case by simp
next
  case (snoc x xs)
  then show ?case by (simp add: setAdd_def)
qed

lemma find_pushCommits:
  "map_option commits (find (\<lambda>c. repo c = r') (pushCommits r ucs cs))
     = (if r' = r
        then Some ((case map_option commits (find (\<lambda>c. repo c = r) cs) of
                      None \<Rightarrow> [] | Some k \<Rightarrow> k) @ ucs)
        else map_option commits (find (\<lambda>c. repo c = r') cs))"
  by (induction cs) auto

lemma find_processEvent:
  "map_option commits (find (\<lambda>c. repo c = r) (processEvent cfg cs e))
     = (let ucs = (case payload_commits e of None \<Rightarrow> [] | Some pcs \<Rightarrow> userCommits cfg e pcs)
        in if repo_name e = r \<and> ucs \<noteq> []
           then Some ((case map_option commits (find (\<lambda>c. repo c = r) cs) of
                         None \<Rightarrow> [] | Some k \<Rightarrow> k) @ ucs)
           else map_option commits (find (\<lambda>c. repo c = r) cs))"
  by (cases "payload_commits e") (auto simp: processEvent_def Let_def find_pushCommits)

lemma find_foldl_processEvent:
  "map_option commits (find (\<lambda>c. repo c = r) (foldl (processEvent cfg) [] es))
     = (let g = concat (map (\<lambda>e. case payload_commits e of None \<Rightarrow> []
                                    | Some pcs \<Rightarrow> userCommits cfg e pcs)
                          (filter (\<lambda>e. repo_name e = r) es))
        in if g = [] then None else Some g)"
proof (induction es rule: rev_induct)
  case Nil
  then show ?case by simp
next
  case (snoc e es)
  show ?case
    by (simp add: find_processEvent snoc Let_def split: option.splits)
qed

lemma pushCommits_inv:
  assumes "\<forall>c\<in>set cs. \<forall>k\<in>set (commits c). Q (repo c) k" and "\<forall>k\<in>set ucs. Q r k"
  shows "\<forall>c\<in>set (pushCommits r ucs cs). \<forall>k\<in>set (commits c). Q (repo c) k"
  using assms by (induction cs) auto

lemma processEvent_inv:
  assumes "\<forall>c\<in>set cs. \<forall>k\<in>set (commits c). Q (repo c) k"
    and "\<forall>pcs. payload_commits e = Some pcs \<longrightarrow> (\<forall>k\<in>set (userCommits cfg e pcs). Q (repo_name e) k)"
  shows "\<forall>c\<in>set (processEvent cfg cs e). \<forall>k\<in>set (commits c). Q (repo c) k"
proof (cases "payload_commits e")
  case None
  then show ?thesis using assms(1) by (simp add: processEvent_def)
next
  case (Some pcs)
  then have u: "\<forall>k\<in>set (userCommits cfg e pcs). Q (repo_name e) k" using assms(2) by simp
  have "\<forall>c\<in>set (pushCommits (repo_name e) (userCommits cfg e pcs) cs). \<forall>k\<in>set (commits c). Q (repo c) k"
    using assms(1) u by (rule pushCommits_inv)
  then show ?thesis using Some assms(1) by (simp add: processEvent_def Let_def)
qed

lemma foldl_processEvent_inv:
  assumes "\<forall>c\<in>set cs. \<forall>k\<in>set (commits c). Q (repo c) k"
    and "\<forall>e\<in>set es. \<forall>pcs. payload_commits e = Some pcs \<longrightarrow> (\<forall>k\<in>set (userCommits cfg e pcs). Q (repo_name e) k)"
  shows "\<forall>c\<in>set (foldl (processEvent cfg) cs es). \<forall>k\<in>set (commits c). Q (repo c) k"
  using assms
proof (induction es arbitrary: cs)
  case Nil
  then show ?case by simp
next
  case (Cons e es)
  have "\<forall>c\<in>set (processEvent cfg cs e). \<forall>k\<in>set (commits c). Q (repo c) k"
    using Cons.prems by (intro processEvent_inv) auto
  then show ?case using Cons.IH Cons.prems(2) by simp
qed

lemma group_inv:
  assumes "\<forall>e\<in>set events. keepEvent parse off cfg e \<longrightarrow>
             (\<forall>pcs. payload_commits e = Some pcs \<longrightarrow>
                (\<forall>k\<in>set (userCommits cfg e pcs). Q (repo_name e) k))"
  shows "\<forall>c\<in>set (groupContributions parse off cfg events). \<forall>k\<in>set (commits c). Q (repo c) k"
proof -
  have "\<forall>e\<in>set (filter (keepEvent parse off cfg) events). \<forall>pcs. payload_commits e = Some pcs \<longrightarrow>
          (\<forall>k\<in>set (userCommits cfg e pcs). Q (repo_name e) k)"
    using assms by simp
  then show ?thesis
    unfolding groupContributions_def Let_def by (intro foldl_processEvent_inv) simp_all
qed

lemma set_process:
  "set (process parse localeCompare off cfg events) = set (groupContributions parse off cfg events)"
  by (simp add: process_def set_sortBy)

lemma process_inv:
  assumes "\<forall>e\<in>set events. keepEvent parse off cfg e \<longrightarrow>
             (\<forall>pcs. payload_commits e = Some pcs \<longrightarrow>
                (\<forall>k\<in>set (userCommits cfg e pcs). Q (repo_name e) k))"
  shows "\<forall>c\<in>set (process parse localeCompare off cfg events). \<forall>k\<in>set (commits c). Q (repo c) k"
  unfolding set_process using assms by (rule group_inv)

lemma group_repos:
  "map repo (groupContributions parse off cfg events)
     = rev (remdups (rev (map repo_name
         (filter (\<lambda>e. case payload_commits e of None \<Rightarrow> False
                         | Some pcs \<Rightarrow> userCommits cfg e pcs \<noteq> [])
            (filter (keepEvent parse off cfg) events)))))"
  unfolding groupContributions_def Let_def
  by (simp only: map_repo_foldl_processEvent list.map foldl_setAdd_first_seen)

lemma group_distinct: "distinct (map repo (groupContributions parse off cfg events))"
  unfolding group_repos by simp

lemma find_distinct_repo:
  "distinct (map repo cs) \<Longrightarrow> c \<in> set cs \<Longrightarrow> find (\<lambda>c'. repo c' = repo c) cs = Some c"
  by (induction cs) auto

lemma group_commits:
  assumes "c \<in> set (groupContributions parse off cfg events)"
  shows "commits c
     = concat (map (\<lambda>e. case payload_commits e of None \<Rightarrow> [] | Some pcs \<Rightarrow> userCommits cfg e pcs)
                 (filter (\<lambda>e. repo_name e = repo c) (filter (keepEvent parse off cfg) events)))"
proof -
  have "find (\<lambda>c'. repo c' = repo c) (groupContributions parse off cfg events) = Some c"
    using group_distinct assms by (rule find_distinct_repo)
  then have "map_option commits
      (find (\<lambda>c'. repo c' = repo c)
         (foldl (processEvent cfg) [] (filter (keepEvent parse off cfg) events))) = Some (commits c)"
    by (simp add: groupContributions_def)
  then show ?thesis
    unfolding find_foldl_processEvent Let_def by (simp split: if_splits)
qed

lemma group_has_repo:
  assumes "concat (map (\<lambda>e. case payload_commits e of None \<Rightarrow> [] | Some pcs \<Rightarrow> userCommits cfg e pcs)
                 (filter (\<lambda>e. repo_name e = r) (filter (keepEvent parse off cfg) events))) \<noteq> []"
  shows "r \<in> repo ` set (groupContributions parse off cfg events)"
proof -
  have "map_option commits
      (find (\<lambda>c'. repo c' = r)
         (foldl (processEvent cfg) [] (filter (keepEvent parse off cfg) events))) \<noteq> None"
    unfolding find_foldl_processEvent Let_def using assms by simp
  then obtain c where "find (\<lambda>c'. repo c' = r) (groupContributions parse off cfg events) = Some c"
    by (auto simp: groupContributions_def)
  then have "c \<in> set (groupContributions parse off cfg events) \<and> repo c = r"
    by (auto simp: find_Some_iff)
  then show ?thesis by auto
qed

subsection \<open>The fetched events\<close>

lemma distinct_setAdd: "distinct s \<Longrightarrow> distinct (setAdd s r)"
  by (simp add: setAdd_def)

lemma distinct_foldl_setAdd: "distinct s \<Longrightarrow> distinct (foldl setAdd s xs)"
  by (induction xs arbitrary: s) (simp_all add: distinct_setAdd)

lemma synthEvent_fields:
  "event_type (synthEvent s r cs) = ''PushEvent''" "created_at (synthEvent s r cs) = s"
  "repo_name (synthEvent s r cs) = r"
  by (simp_all add: synthEvent_def)

lemma repoEvents_props:
  "\<forall>e\<in>set (snd (repoEvents api s u mb rs)).
      event_type e = ''PushEvent'' \<and> created_at e = s \<and> repo_name e \<in> set rs"
proof (induction rs)
  case Nil
  then show ?case by simp
next
  case (Cons r rs)
  then show ?case
    by (auto simp: case_prod_unfold Let_def synthEvent_fields split: sum.splits)
qed

lemma repoEvents_distinct:
  "distinct rs \<Longrightarrow> distinct (map repo_name (snd (repoEvents api s u mb rs)))"
proof (induction rs)
  case Nil
  then show ?case by simp
next
  case (Cons r rs)
  have "r \<notin> repo_name ` set (snd (repoEvents api s u mb rs))"
    using Cons.prems repoEvents_props [of api s u mb rs] by auto
  then show ?case using Cons
    by (auto simp: case_prod_unfold Let_def synthEvent_fields split: sum.splits)
qed

lemma fetchEvents_shape:
  "\<exists>repos. distinct repos
     \<and> snd (fetchEvents api toISO off users targets org d mb)
         = snd (repoEvents api (toISO (getStartOfDay off d))
                  (toISO (getEndOfDay off (getStartOfDay off d))) mb repos)
           @ snd (userEvents api users)"
proof -
  define repos0 where "repos0 = (case org of
                             None \<Rightarrow> []
                           | Some og \<Rightarrow>
                               if og = [] then []
                               else (case orgRepos api og of
                                        Inl _ \<Rightarrow> []
                                      | Inr rs \<Rightarrow> foldl setAdd [] rs))"
  define repos1 where "repos1 = (case userRepos api of
                      Inl _ \<Rightarrow> repos0
                    | Inr rs \<Rightarrow> foldl setAdd repos0 rs)"
  define repos2 where "repos2 = foldl setAdd repos1
                     (filter isValidFullRepo (filter (\<lambda>r. r \<noteq> []) targets))"
  have d0: "distinct repos0"
    unfolding repos0_def by (auto simp: distinct_foldl_setAdd split: option.splits sum.splits)
  then have d1: "distinct repos1"
    unfolding repos1_def by (auto simp: distinct_foldl_setAdd split: sum.splits)
  then have d2: "distinct repos2"
    unfolding repos2_def by (rule distinct_foldl_setAdd)
  have "snd (fetchEvents api toISO off users targets org d mb)
         = snd (repoEvents api (toISO (getStartOfDay off d))
                  (toISO (getEndOfDay off (getStartOfDay off d))) mb repos2)
           @ snd (userEvents api users)"
    unfolding fetchEvents_def repos2_def repos1_def repos0_def Let_def case_prod_unfold
    by (auto split: option.splits sum.splits)
  with d2 show ?thesis by blast
qed


section \<open>Reporter: sorting and deduplication\<close>

text \<open>
  Claim C3: for every Commit list, the result of \<open>sortAndDedup\<close> is sorted descending by
  timestamp and deduplicated by truncated hash, keeping the first (most recent) occurrence
  among commits that share a hash.

  The code does otherwise on three commits of one repository, the first and the last with
  the same hash (the same commit seen in an event of 10:00 and in one of 08:00) and another
  commit of 09:00 between them. The sort leaves the list as it is; the Map constructor keeps
  the key \<open>abc1234\<close> at its first place and overwrites its value with the last entry, so the
  result holds the 08:00 occurrence, before the 09:00 commit: it is neither the most recent
  occurrence nor sorted descending.
\<close>

theorem sortAndDedup_keeps_last_occurrence:
  "sortAndDedup isoParse
     [\<lparr>hash = ''abc1234'', message = ''fix'', author = ''alice'', timestamp = ''2024-01-15T10:00:00Z''\<rparr>,
      \<lparr>hash = ''def5678'', message = ''feat'', author = ''alice'', timestamp = ''2024-01-15T09:00:00Z''\<rparr>,
      \<lparr>hash = ''abc1234'', message = ''fix'', author = ''alice'', timestamp = ''2024-01-15T08:00:00Z''\<rparr>]
   = [\<lparr>hash = ''abc1234'', message = ''fix'', author = ''alice'', timestamp = ''2024-01-15T08:00:00Z''\<rparr>,
      \<lparr>hash = ''def5678'', message = ''feat'', author = ''alice'', timestamp = ''2024-01-15T09:00:00Z''\<rparr>]"
  by code_simp

text \<open>
  Claim C6: \<open>sortAndDedup\<close> is idempotent: applying it twice yields the same result as
  applying it once.

  On the same three commits the first application returns the 08:00 commit before the 09:00
  one, and the second application sorts that list, so the two results differ.
\<close>

theorem sortAndDedup_twice_differs:
  "sortAndDedup isoParse (sortAndDedup isoParse
     [\<lparr>hash = ''abc1234'', message = ''fix'', author = ''alice'', timestamp = ''2024-01-15T10:00:00Z''\<rparr>,
      \<lparr>hash = ''def5678'', message = ''feat'', author = ''alice'', timestamp = ''2024-01-15T09:00:00Z''\<rparr>,
      \<lparr>hash = ''abc1234'', message = ''fix'', author = ''alice'', timestamp = ''2024-01-15T08:00:00Z''\<rparr>])
   = [\<lparr>hash = ''def5678'', message = ''feat'', author = ''alice'', timestamp = ''2024-01-15T09:00:00Z''\<rparr>,
      \<lparr>hash = ''abc1234'', message = ''fix'', author = ''alice'', timestamp = ''2024-01-15T08:00:00Z''\<rparr>]
   \<and> sortAndDedup isoParse (sortAndDedup isoParse
     [\<lparr>hash = ''abc1234'', message = ''fix'', author = ''alice'', timestamp = ''2024-01-15T10:00:00Z''\<rparr>,
      \<lparr>hash = ''def5678'', message = ''feat'', author = ''alice'', timestamp = ''2024-01-15T09:00:00Z''\<rparr>,
      \<lparr>hash = ''abc1234'', message = ''fix'', author = ''alice'', timestamp = ''2024-01-15T08:00:00Z''\<rparr>])
   \<noteq> sortAndDedup isoParse
     [\<lparr>hash = ''abc1234'', message = ''fix'', author = ''alice'', timestamp = ''2024-01-15T10:00:00Z''\<rparr>,
      \<lparr>hash = ''def5678'', message = ''feat'', author = ''alice'', timestamp = ''2024-01-15T09:00:00Z''\<rparr>,
      \<lparr>hash = ''abc1234'', message = ''fix'', author = ''alice'', timestamp = ''2024-01-15T08:00:00Z''\<rparr>]"
  by code_simp

section \<open>Branch Sampling Policy\<close>

lemma find_isMain:
  "find (\<lambda>b. b = ''main'' \<or> b = ''master'') bs = Some m \<Longrightarrow> m = ''main'' \<or> m = ''master''"
  by (induction bs) (auto split: if_splits)

lemma filter_main_take_others:
  "filter (\<lambda>b. b = ''main'' \<or> b = ''master'') (take k (filter (\<lambda>b. b \<noteq> ''main'' \<and> b \<noteq> ''master'') bs)) = []"
  by (auto simp: filter_empty_conv dest: in_set_takeD)

lemma filter_others_take_others:
  "filter (\<lambda>b. b \<noteq> ''main'' \<and> b \<noteq> ''master'') (take k (filter (\<lambda>b. b \<noteq> ''main'' \<and> b \<noteq> ''master'') bs))
     = take k (filter (\<lambda>b. b \<noteq> ''main'' \<and> b \<noteq> ''master'') bs)"
  by (auto simp: filter_id_conv dest: in_set_takeD)

lemma sampleBranches_over:
  assumes "cap < int (length branches)" and "1 \<le> cap"
  shows "sampleBranches branches cap =
           (case find (\<lambda>b. b = ''main'' \<or> b = ''master'') branches of None \<Rightarrow> [] | Some m \<Rightarrow> [m])
           @ take (nat cap
                    - length (case find (\<lambda>b. b = ''main'' \<or> b = ''master'') branches of None \<Rightarrow> [] | Some m \<Rightarrow> [m]))
               (filter (\<lambda>b. b \<noteq> ''main'' \<and> b \<noteq> ''master'') branches)"
proof (cases "find (\<lambda>b. b = ''main'' \<or> b = ''master'') branches")
  case None
  then show ?thesis using assms
    by (simp add: sampleBranches_def slice0_def Let_def min_def take_all)
next
  case (Some m)
  have "take (nat (min (cap - 1) (int (length (filter (\<lambda>b. b \<noteq> ''main'' \<and> b \<noteq> ''master'') branches)))))
          (filter (\<lambda>b. b \<noteq> ''main'' \<and> b \<noteq> ''master'') branches)
        = take (nat cap - 1) (filter (\<lambda>b. b \<noteq> ''main'' \<and> b \<noteq> ''master'') branches)"
    using assms by (simp add: min_def nat_diff_distrib take_all)
  then show ?thesis using assms Some
    by (simp add: sampleBranches_def slice0_def Let_def)
qed

text \<open>
  Claim C4, as stated: the list is returned unchanged when its length is at most the cap;
  otherwise at most one of \<open>main\<close>/\<open>master\<close> is retained, checking \<open>main\<close> first, else
  \<open>master\<close>, and the remaining slots are filled from the other branches in listing order.

  The code retains the first branch of the listing that is \<open>main\<close> or \<open>master\<close>: where
  \<open>master\<close> is listed before \<open>main\<close>, it is \<open>master\<close> that is retained and \<open>main\<close> is
  left out.
\<close>

theorem sampleBranches_master_before_main:
  "sampleBranches [''master'', ''main'', ''dev''] 2 = [''master'', ''dev'']
   \<and> ''main'' \<in> set [''master'', ''main'', ''dev'']
   \<and> ''main'' \<notin> set (sampleBranches [''master'', ''main'', ''dev''] 2)"
  by code_simp

text \<open>
  Claim C4, amended: the list is returned unchanged when its length is at most the cap.
  Otherwise, for a cap of at least 1, the result has at most \<open>maxBranches\<close> branches; of
  \<open>main\<close> and \<open>master\<close> it retains exactly the first one in listing order, if there is
  one; and its other branches are the first other branches of the listing, in listing
  order, as many as the remaining slots. For \<open>maxBranches = 2\<close> and the listing
  \<open>main, feature-a, feature-b\<close> the result is \<open>main, feature-a\<close>.
\<close>

theorem sampleBranches_policy:
  "(int (length branches) \<le> cap \<longrightarrow> sampleBranches branches cap = branches)
   \<and> (cap < int (length branches) \<and> 1 \<le> cap \<longrightarrow>
        length (sampleBranches branches cap) \<le> nat cap
        \<and> filter (\<lambda>b. b = ''main'' \<or> b = ''master'') (sampleBranches branches cap)
            = (case find (\<lambda>b. b = ''main'' \<or> b = ''master'') branches of None \<Rightarrow> [] | Some m \<Rightarrow> [m])
        \<and> filter (\<lambda>b. b \<noteq> ''main'' \<and> b \<noteq> ''master'') (sampleBranches branches cap)
            = take (nat cap
                     - length (case find (\<lambda>b. b = ''main'' \<or> b = ''master'') branches of None \<Rightarrow> [] | Some m \<Rightarrow> [m]))
                (filter (\<lambda>b. b \<noteq> ''main'' \<and> b \<noteq> ''master'') branches))
   \<and> sampleBranches [''main'', ''feature-a'', ''feature-b''] 2 = [''main'', ''feature-a'']"
proof (intro conjI impI)
  assume "int (length branches) \<le> cap"
  then show "sampleBranches branches cap = branches"
    by (simp add: sampleBranches_def)
next
  assume h: "cap < int (length branches) \<and> 1 \<le> cap"
  note eq = sampleBranches_over [of cap branches]
  show "length (sampleBranches branches cap) \<le> nat cap"
    using h eq by (cases "find (\<lambda>b. b = ''main'' \<or> b = ''master'') branches") auto
  show "filter (\<lambda>b. b = ''main'' \<or> b = ''master'') (sampleBranches branches cap)
            = (case find (\<lambda>b. b = ''main'' \<or> b = ''master'') branches of None \<Rightarrow> [] | Some m \<Rightarrow> [m])"
    using h eq find_isMain [of branches]
    by (cases "find (\<lambda>b. b = ''main'' \<or> b = ''master'') branches")
       (auto simp: filter_main_take_others)
  show "filter (\<lambda>b. b \<noteq> ''main'' \<and> b \<noteq> ''master'') (sampleBranches branches cap)
            = take (nat cap
                     - length (case find (\<lambda>b. b = ''main'' \<or> b = ''master'') branches of None \<Rightarrow> [] | Some m \<Rightarrow> [m]))
                (filter (\<lambda>b. b \<noteq> ''main'' \<and> b \<noteq> ''master'') branches)"
    using h eq find_isMain [of branches]
    by (cases "find (\<lambda>b. b = ''main'' \<or> b = ''master'') branches")
       (auto simp: filter_others_take_others)
next
  show "sampleBranches [''main'', ''feature-a'', ''feature-b''] 2 = [''main'', ''feature-a'']"
    by code_simp
qed

text \<open>
  Two listings: \<open>main, dev\<close> under a cap of 5 is unchanged; \<open>dev, master, main, a, b\<close>
  under a cap of 3 becomes \<open>master, dev, a\<close>.
\<close>

theorem sampleBranches_policy_witness:
  "sampleBranches [''main'', ''dev''] 5 = [''main'', ''dev'']
   \<and> length (sampleBranches [''dev'', ''master'', ''main'', ''a'', ''b''] 3) \<le> nat 3
   \<and> filter (\<lambda>b. b = ''main'' \<or> b = ''master'')
        (sampleBranches [''dev'', ''master'', ''main'', ''a'', ''b''] 3) = [''master'']
   \<and> filter (\<lambda>b. b \<noteq> ''main'' \<and> b \<noteq> ''master'')
        (sampleBranches [''dev'', ''master'', ''main'', ''a'', ''b''] 3) = [''dev'', ''a'']"
proof -
  have a: "sampleBranches [''main'', ''dev''] 5 = [''main'', ''dev'']"
    using sampleBranches_policy [of "[''main'', ''dev'']" 5] by simp
  have h: "(3::int) < int (length [''dev'', ''master'', ''main'', ''a'', ''b'']) \<and> (1::int) \<le> 3"
    by simp
  have b: "length (sampleBranches [''dev'', ''master'', ''main'', ''a'', ''b''] 3) \<le> nat 3
   \<and> filter (\<lambda>b. b = ''main'' \<or> b = ''master'')
        (sampleBranches [''dev'', ''master'', ''main'', ''a'', ''b''] 3) = [''master'']
   \<and> filter (\<lambda>b. b \<noteq> ''main'' \<and> b \<noteq> ''master'')
        (sampleBranches [''dev'', ''master'', ''main'', ''a'', ''b''] 3) = [''dev'', ''a'']"
    using sampleBranches_policy [of "[''dev'', ''master'', ''main'', ''a'', ''b'']" 3] h by simp
  from a b show ?thesis by (rule conjI)
qed

section \<open>Commit Aggregator: merging the branches\<close>

lemma find_app:
  "find P (xs @ ys) = (case find P xs of None \<Rightarrow> find P ys | Some x \<Rightarrow> Some x)"
  by (induction xs) auto

lemma find_sha_None: "find (\<lambda>d. api_sha d = s) acc = None \<longleftrightarrow> s \<notin> api_sha ` set acc"
  by (auto simp: find_None_iff)

lemma foldl_addUnique:
  assumes "seen = api_sha ` set acc" and "distinct (map api_sha acc)"
  shows "\<exists>ys. foldl addUnique (acc, seen) xs = (acc @ ys, api_sha ` set (acc @ ys))
            \<and> distinct (map api_sha (acc @ ys)) \<and> subseq ys xs
            \<and> (\<forall>s. find (\<lambda>d. api_sha d = s) (acc @ ys)
                   = (case find (\<lambda>d. api_sha d = s) acc of
                        None \<Rightarrow> find (\<lambda>d. api_sha d = s) xs | Some c \<Rightarrow> Some c))"
  using assms
proof (induction xs arbitrary: acc seen)
  case Nil
  then show ?case by (auto split: option.splits)
next
  case (Cons x xs)
  show ?case
  proof (cases "api_sha x \<in> seen")
    case True
    then have step: "addUnique (acc, seen) x = (acc, seen)" by (simp add: addUnique_def)
    from Cons.IH [OF Cons.prems] obtain ys where
      ys: "foldl addUnique (acc, seen) xs = (acc @ ys, api_sha ` set (acc @ ys))"
        "distinct (map api_sha (acc @ ys))" "subseq ys xs"
        "\<forall>s. find (\<lambda>d. api_sha d = s) (acc @ ys)
                   = (case find (\<lambda>d. api_sha d = s) acc of
                        None \<Rightarrow> find (\<lambda>d. api_sha d = s) xs | Some c \<Rightarrow> Some c)"
      by blast
    have f: "\<forall>s. find (\<lambda>d. api_sha d = s) (acc @ ys)
                   = (case find (\<lambda>d. api_sha d = s) acc of
                        None \<Rightarrow> find (\<lambda>d. api_sha d = s) (x # xs) | Some c \<Rightarrow> Some c)"
    proof
      fix s
      show "find (\<lambda>d. api_sha d = s) (acc @ ys)
                   = (case find (\<lambda>d. api_sha d = s) acc of
                        None \<Rightarrow> find (\<lambda>d. api_sha d = s) (x # xs) | Some c \<Rightarrow> Some c)"
      proof (cases "find (\<lambda>d. api_sha d = s) acc")
        case None
        then have "s \<notin> seen" using Cons.prems(1) by (simp add: find_sha_None)
        then have "api_sha x \<noteq> s" using True by auto
        then show ?thesis using ys(4) None by simp
      next
        case (Some c)
        then show ?thesis using ys(4) by simp
      qed
    qed
    have "subseq ys (x # xs)" using ys(3) by (rule list_emb_Cons)
    then show ?thesis using step ys(1,2) f by auto
  next
    case False
    then have step: "addUnique (acc, seen) x = (acc @ [x], insert (api_sha x) seen)"
      by (simp add: addUnique_def)
    have inv1: "insert (api_sha x) seen = api_sha ` set (acc @ [x])"
      using Cons.prems(1) by auto
    have inv2: "distinct (map api_sha (acc @ [x]))"
      using Cons.prems False by auto
    from Cons.IH [OF inv1 inv2] obtain zs where
      zs: "foldl addUnique (acc @ [x], insert (api_sha x) seen) xs
             = ((acc @ [x]) @ zs, api_sha ` set ((acc @ [x]) @ zs))"
        "distinct (map api_sha ((acc @ [x]) @ zs))" "subseq zs xs"
        "\<forall>s. find (\<lambda>d. api_sha d = s) ((acc @ [x]) @ zs)
                   = (case find (\<lambda>d. api_sha d = s) (acc @ [x]) of
                        None \<Rightarrow> find (\<lambda>d. api_sha d = s) xs | Some c \<Rightarrow> Some c)"
      by blast
    have f: "\<forall>s. find (\<lambda>d. api_sha d = s) (acc @ x # zs)
                   = (case find (\<lambda>d. api_sha d = s) acc of
                        None \<Rightarrow> find (\<lambda>d. api_sha d = s) (x # xs) | Some c \<Rightarrow> Some c)"
    proof
      fix s
      show "find (\<lambda>d. api_sha d = s) (acc @ x # zs)
                   = (case find (\<lambda>d. api_sha d = s) acc of
                        None \<Rightarrow> find (\<lambda>d. api_sha d = s) (x # xs) | Some c \<Rightarrow> Some c)"
        using zs(4) [rule_format, of s]
        by (cases "find (\<lambda>d. api_sha d = s) acc") (simp_all add: find_app)
    qed
    have "foldl addUnique (acc, seen) (x # xs) = (acc @ x # zs, api_sha ` set (acc @ x # zs))"
      using step zs(1) by simp
    moreover have "distinct (map api_sha (acc @ x # zs))" using zs(2) by simp
    moreover have "subseq (x # zs) (x # xs)" using zs(3) by simp
    ultimately show ?thesis using f by blast
  qed
qed

lemma filter_key_once:
  "distinct (map f ys) \<Longrightarrow> d \<in> set ys \<Longrightarrow> length (filter (\<lambda>e. f e = f d) ys) = 1"
proof (induction ys)
  case Nil
  then show ?case by simp
next
  case (Cons y ys)
  show ?case
  proof (cases "f y = f d")
    case True
    then have "f d \<notin> f ` set ys" using Cons.prems(1) by simp
    then have "filter (\<lambda>e. f e = f d) ys = []" by (force simp: filter_empty_conv image_iff)
    then show ?thesis using True by simp
  next
    case False
    then have "d \<in> set ys" using Cons.prems(2) by auto
    then show ?thesis using Cons.IH Cons.prems(1) False by simp
  qed
qed

lemma foldl_addUnique_first_sightings:
  "fst (foldl addUnique ([], {}) xs)
     = map (\<lambda>i. xs ! i)
         (filter (\<lambda>i. api_sha (xs ! i) \<notin> api_sha ` set (take i xs)) [0..<length xs])"
proof (induction xs rule: rev_induct)
  case Nil
  then show ?case by simp
next
  case (snoc x xs)
  from foldl_addUnique [of "{}" "[]" xs] obtain ys where
    ys: "foldl addUnique ([], {}) xs = (ys, api_sha ` set ys)"
      "\<forall>s. find (\<lambda>d. api_sha d = s) ys = find (\<lambda>d. api_sha d = s) xs"
    by auto
  have shas: "api_sha ` set ys = api_sha ` set xs"
  proof -
    have "s \<in> api_sha ` set ys \<longleftrightarrow> s \<in> api_sha ` set xs" for s
      using ys(2) find_sha_None [of s ys] find_sha_None [of s xs] by metis
    then show ?thesis by blast
  qed
  have ysq: "ys = map (\<lambda>i. xs ! i)
         (filter (\<lambda>i. api_sha (xs ! i) \<notin> api_sha ` set (take i xs)) [0..<length xs])"
    using snoc ys(1) by simp
  define Q where "Q = (\<lambda>i. api_sha ((xs @ [x]) ! i) \<notin> api_sha ` set (take i (xs @ [x])))"
  have f: "filter Q [0..<length xs]
         = filter (\<lambda>i. api_sha (xs ! i) \<notin> api_sha ` set (take i xs)) [0..<length xs]"
    unfolding Q_def by (rule filter_cong) (simp_all add: nth_append)
  have m: "map (\<lambda>i. (xs @ [x]) ! i)
             (filter (\<lambda>i. api_sha (xs ! i) \<notin> api_sha ` set (take i xs)) [0..<length xs])
         = map (\<lambda>i. xs ! i)
             (filter (\<lambda>i. api_sha (xs ! i) \<notin> api_sha ` set (take i xs)) [0..<length xs])"
    by (rule map_cong) (simp_all add: nth_append)
  have qn: "Q (length xs) \<longleftrightarrow> api_sha x \<notin> api_sha ` set xs"
    by (simp add: Q_def)
  have step: "fst (foldl addUnique ([], {}) (xs @ [x]))
         = (if api_sha x \<in> api_sha ` set xs then ys else ys @ [x])"
    using ys(1) shas by (simp add: addUnique_def)
  have "map (\<lambda>i. (xs @ [x]) ! i) (filter Q [0..<length (xs @ [x])])
      = map (\<lambda>i. (xs @ [x]) ! i) (filter Q [0..<length xs])
        @ (if Q (length xs) then [x] else [])"
    by simp
  also have "\<dots> = ys @ (if api_sha x \<in> api_sha ` set xs then [] else [x])"
    unfolding f m ysq [symmetric] qn by simp
  also have "\<dots> = fst (foldl addUnique ([], {}) (xs @ [x]))"
    unfolding step by simp
  finally show ?case unfolding Q_def by simp
qed

lemma fetchBranches_state:
  "snd (fetchBranches api owner name since until bs st)
     = foldl addUnique st
         (concat (map (\<lambda>b. case repoCommits api owner name since until b of
                              Inl _ \<Rightarrow> [] | Inr data \<Rightarrow> data) bs))"
  by (induction bs arbitrary: st) (simp_all add: case_prod_unfold Let_def split: sum.splits)

lemma fetchBranches_trace:
  "fst (fetchBranches api owner name since until bs st) = map (GetCommits owner name since until) bs"
  by (induction bs arbitrary: st) (simp_all add: case_prod_unfold Let_def split: sum.splits)

text \<open>
  Claim C2: the merged output of \<open>getCommitsForRepo\<close> contains each commit exactly once,
  keyed by full commit SHA, with first-seen-wins order: a commit returned by two or more
  sampled branches appears exactly once.

  \<open>fetched\<close> is what the sampled branches returned, in the order of the requests, a failed
  request counting for nothing. The aggregation returns the list \<open>out\<close> of the first
  sightings: the entries of \<open>fetched\<close>, in order, at the positions whose SHA does not occur
  at an earlier position. So its SHAs are distinct, every fetched commit's SHA occurs
  exactly once in it, for every SHA the commit kept is the first one fetched with that SHA,
  and \<open>out\<close> keeps the order of \<open>fetched\<close>.
\<close>

theorem getCommitsForRepo_merge:
  assumes "ownerRepo repoFullName = Some (owner, name)"
    and "repoBranches api owner name = Inr branches"
    and "fetched = concat (map (\<lambda>b. case repoCommits api owner name since until b of
                                       Inl _ \<Rightarrow> [] | Inr data \<Rightarrow> data)
                            (sampleBranches branches cap))"
  shows "\<exists>out. snd (getCommitsForRepo api repoFullName since until cap) = Inr out
           \<and> out = map (\<lambda>i. fetched ! i)
                     (filter (\<lambda>i. api_sha (fetched ! i) \<notin> api_sha ` set (take i fetched))
                        [0..<length fetched])
           \<and> distinct (map api_sha out)
           \<and> (\<forall>c\<in>set fetched. length (filter (\<lambda>d. api_sha d = api_sha c) out) = 1)
           \<and> (\<forall>s. find (\<lambda>d. api_sha d = s) out = find (\<lambda>d. api_sha d = s) fetched)
           \<and> subseq out fetched"
proof -
  from foldl_addUnique [of "{}" "[]" fetched] obtain ys where
    ys: "foldl addUnique ([], {}) fetched = (ys, api_sha ` set ys)"
      "distinct (map api_sha ys)" "subseq ys fetched"
      "\<forall>s. find (\<lambda>d. api_sha d = s) ys = find (\<lambda>d. api_sha d = s) fetched"
    by auto
  have res: "snd (getCommitsForRepo api repoFullName since until cap) = Inr ys"
    using assms ys(1) fetchBranches_state [of api owner name since until
        "sampleBranches branches cap" "([], {})"]
    by (simp add: getCommitsForRepo_def getBranchesForRepo_def Let_def case_prod_unfold)
  have once: "\<forall>c\<in>set fetched. length (filter (\<lambda>d. api_sha d = api_sha c) ys) = 1"
  proof
    fix c assume "c \<in> set fetched"
    then have "find (\<lambda>d. api_sha d = api_sha c) fetched \<noteq> None"
      by (auto simp: find_None_iff)
    then have "find (\<lambda>d. api_sha d = api_sha c) ys \<noteq> None" using ys(4) by simp
    then obtain d where d: "d \<in> set ys" "api_sha d = api_sha c"
      by (auto simp: find_None_iff)
    have "length (filter (\<lambda>e. api_sha e = api_sha d) ys) = 1"
      using ys(2) d(1) by (rule filter_key_once)
    then show "length (filter (\<lambda>d. api_sha d = api_sha c) ys) = 1" using d(2) by simp
  qed
  have firsts: "ys = map (\<lambda>i. fetched ! i)
                     (filter (\<lambda>i. api_sha (fetched ! i) \<notin> api_sha ` set (take i fetched))
                        [0..<length fetched])"
    using foldl_addUnique_first_sightings [of fetched] ys(1) by simp
  from res firsts ys(2) once ys(4) ys(3) show ?thesis by blast
qed

text \<open>
  On the example remote: \<open>main\<close> returns \<open>c1, c2\<close>, \<open>dev\<close> returns \<open>c2, c3\<close>, the
  request for \<open>old\<close> fails; the result is \<open>c1, c2, c3\<close>.
\<close>

theorem getCommitsForRepo_merge_witness:
  "snd (getCommitsForRepo apiEx ''acme/api'' ''2024-01-15T00:00:00.000Z'' ''2024-01-15T23:59:59.999Z'' 10)
     = Inr [c1, c2, c3]
   \<and> map (\<lambda>i. [c1, c2, c2, c3] ! i)
        (filter (\<lambda>i. api_sha ([c1, c2, c2, c3] ! i) \<notin> api_sha ` set (take i [c1, c2, c2, c3]))
           [0..<length [c1, c2, c2, c3]])
       = [c1, c2, c3]
   \<and> distinct (map api_sha [c1, c2, c3])
   \<and> length (filter (\<lambda>d. api_sha d = api_sha c2) [c1, c2, c3]) = 1"
proof -
  have o: "ownerRepo ''acme/api'' = Some (''acme'', ''api'')"
    by code_simp
  have b: "repoBranches apiEx ''acme'' ''api'' = Inr [''main'', ''dev'', ''old'']"
    by simp
  have f: "[c1, c2, c2, c3]
     = concat (map (\<lambda>b. case repoCommits apiEx ''acme'' ''api'' ''2024-01-15T00:00:00.000Z''
                                ''2024-01-15T23:59:59.999Z'' b of
                            Inl _ \<Rightarrow> [] | Inr data \<Rightarrow> data)
                 (sampleBranches [''main'', ''dev'', ''old''] 10))"
    by (simp add: sampleBranches_def)
  from getCommitsForRepo_merge [OF o b f] obtain out where
    out: "snd (getCommitsForRepo apiEx ''acme/api'' ''2024-01-15T00:00:00.000Z''
                 ''2024-01-15T23:59:59.999Z'' 10) = Inr out"
      "out = map (\<lambda>i. [c1, c2, c2, c3] ! i)
        (filter (\<lambda>i. api_sha ([c1, c2, c2, c3] ! i) \<notin> api_sha ` set (take i [c1, c2, c2, c3]))
           [0..<length [c1, c2, c2, c3]])"
      "distinct (map api_sha out)"
      "\<forall>c\<in>set [c1, c2, c2, c3]. length (filter (\<lambda>d. api_sha d = api_sha c) out) = 1"
    by blast
  have v: "snd (getCommitsForRepo apiEx ''acme/api'' ''2024-01-15T00:00:00.000Z''
                  ''2024-01-15T23:59:59.999Z'' 10) = Inr [c1, c2, c3]"
    by code_simp
  from out(1) v have eq: "out = [c1, c2, c3]" by simp
  have m: "c2 \<in> set [c1, c2, c2, c3]" by simp
  from out(4) m have once: "length (filter (\<lambda>d. api_sha d = api_sha c2) out) = 1" by (rule bspec)
  from out(2) eq have firsts: "map (\<lambda>i. [c1, c2, c2, c3] ! i)
        (filter (\<lambda>i. api_sha ([c1, c2, c2, c3] ! i) \<notin> api_sha ` set (take i [c1, c2, c2, c3]))
           [0..<length [c1, c2, c2, c3]])
       = [c1, c2, c3]"
    by (simp only:)
  from out(3) eq have d: "distinct (map api_sha [c1, c2, c3])" by (simp only:)
  from once eq have o1: "length (filter (\<lambda>d. api_sha d = api_sha c2) [c1, c2, c3]) = 1"
    by (simp only:)
  from v firsts d o1 show ?thesis by (intro conjI)
qed

section \<open>EOD Processor: filtering and grouping\<close>

text \<open>
  Claim C1: when the target-user list is empty it means "all": filtering by user is skipped,
  and the per-commit author filter is applied only when the list is non-empty, so with an
  empty list every commit of a qualifying push event is converted and appended to its
  repository's Contribution.

  With an empty list: every event matches the user filter; the commits of an event are all
  converted; the commit list of every Contribution returned is the concatenation, in event
  order, of all the converted commits of the kept events of its repository; and every kept
  event with at least one commit has its repository's Contribution in the result, holding
  all its commits. With a non-empty list the commits are filtered by author.
\<close>

theorem empty_targetUsers_means_all:
  "(targetUsers cfg = [] \<longrightarrow>
      userMatch cfg event
      \<and> userCommits cfg event pcs = map (toCommit event) pcs
      \<and> (\<forall>c\<in>set (process parse localeCompare off cfg events).
            commits c
              = concat (map (\<lambda>e. case payload_commits e of
                                    None \<Rightarrow> [] | Some ps \<Rightarrow> map (toCommit e) ps)
                          (filter (\<lambda>e. repo_name e = repo c)
                             (filter (keepEvent parse off cfg) events))))
      \<and> (\<forall>e\<in>set events. \<forall>ps.
            keepEvent parse off cfg e \<and> payload_commits e = Some ps \<and> ps \<noteq> []
            \<longrightarrow> (\<exists>c\<in>set (process parse localeCompare off cfg events).
                   repo c = repo_name e \<and> (\<forall>p\<in>set ps. toCommit e p \<in> set (commits c)))))
   \<and> (targetUsers cfg \<noteq> [] \<longrightarrow>
        userCommits cfg event pcs
          = map (toCommit event)
              (filter (\<lambda>commit. author_name commit \<in> set (targetUsers cfg)) pcs))"
proof (intro conjI impI)
  assume h: "targetUsers cfg = []"
  have uc: "\<And>e ps. userCommits cfg e ps = map (toCommit e) ps"
    by (simp add: userCommits_def h)
  have evq: "(\<lambda>e. case payload_commits e of None \<Rightarrow> [] | Some ps \<Rightarrow> userCommits cfg e ps)
      = (\<lambda>e. case payload_commits e of None \<Rightarrow> [] | Some ps \<Rightarrow> map (toCommit e) ps)"
    by (simp add: uc fun_eq_iff split: option.splits)
  show "userMatch cfg event" by (simp add: userMatch_def h)
  show "userCommits cfg event pcs = map (toCommit event) pcs" by (rule uc)
  have grp: "\<And>c. c \<in> set (process parse localeCompare off cfg events) \<Longrightarrow>
            commits c
              = concat (map (\<lambda>e. case payload_commits e of
                                    None \<Rightarrow> [] | Some ps \<Rightarrow> map (toCommit e) ps)
                          (filter (\<lambda>e. repo_name e = repo c)
                             (filter (keepEvent parse off cfg) events)))"
    unfolding set_process using group_commits [of _ parse off cfg events] by (simp only: evq)
  show "\<forall>c\<in>set (process parse localeCompare off cfg events).
            commits c
              = concat (map (\<lambda>e. case payload_commits e of
                                    None \<Rightarrow> [] | Some ps \<Rightarrow> map (toCommit e) ps)
                          (filter (\<lambda>e. repo_name e = repo c)
                             (filter (keepEvent parse off cfg) events)))"
    using grp by blast
  show "\<forall>e\<in>set events. \<forall>ps.
            keepEvent parse off cfg e \<and> payload_commits e = Some ps \<and> ps \<noteq> []
            \<longrightarrow> (\<exists>c\<in>set (process parse localeCompare off cfg events).
                   repo c = repo_name e \<and> (\<forall>p\<in>set ps. toCommit e p \<in> set (commits c)))"
  proof (intro ballI allI impI)
    fix e ps
    assume e: "e \<in> set events"
      and k: "keepEvent parse off cfg e \<and> payload_commits e = Some ps \<and> ps \<noteq> []"
    let ?g = "\<lambda>r. concat (map (\<lambda>e. case payload_commits e of
                                    None \<Rightarrow> [] | Some ps \<Rightarrow> map (toCommit e) ps)
                          (filter (\<lambda>e. repo_name e = r)
                             (filter (keepEvent parse off cfg) events)))"
    have mem: "e \<in> set (filter (\<lambda>x. repo_name x = repo_name e)
                             (filter (keepEvent parse off cfg) events))"
      using e k by simp
    have sub: "\<forall>p\<in>set ps. toCommit e p \<in> set (?g (repo_name e))"
    proof
      fix p assume "p \<in> set ps"
      then have "toCommit e p \<in> set (case payload_commits e of
                                    None \<Rightarrow> [] | Some ps \<Rightarrow> map (toCommit e) ps)"
        using k by simp
      then show "toCommit e p \<in> set (?g (repo_name e))"
        using mem by (simp only: set_concat set_map) blast
    qed
    obtain p0 where "p0 \<in> set ps" using k by (cases ps) auto
    with sub have in_g: "toCommit e p0 \<in> set (?g (repo_name e))" by blast
    have ne: "?g (repo_name e) \<noteq> []"
    proof
      assume "?g (repo_name e) = []"
      with in_g show False by (simp only: list.set empty_iff)
    qed
    have "repo_name e \<in> repo ` set (groupContributions parse off cfg events)"
      by (rule group_has_repo) (unfold evq, rule ne)
    then obtain c where c: "c \<in> set (process parse localeCompare off cfg events)"
      "repo c = repo_name e"
      unfolding set_process by auto
    from grp [OF c(1)] c(2) have "commits c = ?g (repo_name e)" by simp
    with sub c show "\<exists>c\<in>set (process parse localeCompare off cfg events).
                   repo c = repo_name e \<and> (\<forall>p\<in>set ps. toCommit e p \<in> set (commits c))"
      by auto
  qed
next
  assume "targetUsers cfg \<noteq> []"
  then show "userCommits cfg event pcs
          = map (toCommit event)
              (filter (\<lambda>commit. author_name commit \<in> set (targetUsers cfg)) pcs)"
    by (simp add: userCommits_def)
qed

text \<open>
  No target users, no target repositories, and one push to \<open>acme/api\<close> with a commit of
  \<open>alice\<close> and a commit of \<open>bob\<close>: both are in the Contribution. With \<open>alice\<close> as the
  target user, only hers is.
\<close>

theorem empty_targetUsers_means_all_witness:
  "userMatch cfgAll (pushAt ''2024-01-15T10:00:00Z'' ''acme/api'' [pcAlice, pcBob])
   \<and> userCommits cfgAll (pushAt ''2024-01-15T10:00:00Z'' ''acme/api'' [pcAlice, pcBob])
        [pcAlice, pcBob]
       = [\<lparr>hash = ''abc1234'', message = ''fix login'', author = ''alice'',
           timestamp = ''2024-01-15T10:00:00Z''\<rparr>,
          \<lparr>hash = ''0123456'', message = ''add cache'', author = ''bob'',
           timestamp = ''2024-01-15T10:00:00Z''\<rparr>]
   \<and> process isoParse lexCompare 0 cfgAll
        [pushAt ''2024-01-15T10:00:00Z'' ''acme/api'' [pcAlice, pcBob]]
       = [\<lparr>repo = ''acme/api'',
           commits = [\<lparr>hash = ''abc1234'', message = ''fix login'', author = ''alice'',
                       timestamp = ''2024-01-15T10:00:00Z''\<rparr>,
                      \<lparr>hash = ''0123456'', message = ''add cache'', author = ''bob'',
                       timestamp = ''2024-01-15T10:00:00Z''\<rparr>]\<rparr>]
   \<and> userCommits cfgAlice (pushAt ''2024-01-15T10:00:00Z'' ''acme/api'' [pcAlice, pcBob])
        [pcAlice, pcBob]
       = [\<lparr>hash = ''abc1234'', message = ''fix login'', author = ''alice'',
           timestamp = ''2024-01-15T10:00:00Z''\<rparr>]"
proof -
  let ?ev = "pushAt ''2024-01-15T10:00:00Z'' ''acme/api'' [pcAlice, pcBob]"
  note t = empty_targetUsers_means_all [of cfgAll ?ev "[pcAlice, pcBob]" isoParse lexCompare 0 "[?ev]"]
  note t2 = empty_targetUsers_means_all [of cfgAlice ?ev "[pcAlice, pcBob]" isoParse lexCompare 0 "[?ev]"]
  have h: "targetUsers cfgAll = []" by simp
  have h2: "targetUsers cfgAlice \<noteq> []" by simp
  from t h have a: "userMatch cfgAll ?ev"
    and b: "userCommits cfgAll ?ev [pcAlice, pcBob] = map (toCommit ?ev) [pcAlice, pcBob]"
    by blast+
  from t2 h2 have c: "userCommits cfgAlice ?ev [pcAlice, pcBob]
          = map (toCommit ?ev)
              (filter (\<lambda>commit. author_name commit \<in> set (targetUsers cfgAlice)) [pcAlice, pcBob])"
    by blast
  have v: "process isoParse lexCompare 0 cfgAll [?ev]
       = [\<lparr>repo = ''acme/api'',
           commits = [\<lparr>hash = ''abc1234'', message = ''fix login'', author = ''alice'',
                       timestamp = ''2024-01-15T10:00:00Z''\<rparr>,
                      \<lparr>hash = ''0123456'', message = ''add cache'', author = ''bob'',
                       timestamp = ''2024-01-15T10:00:00Z''\<rparr>]\<rparr>]"
    by code_simp
  from a b c v show ?thesis by (simp add: toCommit_def)
qed

text \<open>
  Claim C5: the date filter is inclusive on both ends of the local calendar day: an event
  with timestamp exactly at the start or exactly at the end of the day is included, and an
  event one millisecond before the start or one millisecond after the end is excluded.
  Stated for a push event that matches the repository and user filters, whose fate the date
  filter then decides; \<open>t\<close> is the instant its \<open>created_at\<close> parses to.
\<close>

theorem dateFilter_inclusive:
  assumes "event_type event = ''PushEvent''" and "repoMatch cfg event" and "userMatch cfg event"
    and "parse (created_at event) = Some t"
  shows "(t = getStartOfDay off (date cfg) \<or> t = getEndOfDay off (date cfg)
            \<longrightarrow> keepEvent parse off cfg event)
       \<and> (t = getStartOfDay off (date cfg) - 1 \<or> t = getEndOfDay off (date cfg) + 1
            \<longrightarrow> \<not> keepEvent parse off cfg event)
       \<and> (keepEvent parse off cfg event
            \<longleftrightarrow> getStartOfDay off (date cfg) \<le> t \<and> t \<le> getEndOfDay off (date cfg))"
proof -
  have span: "getEndOfDay off (date cfg) = getStartOfDay off (date cfg) + 86399999"
    by (simp add: getEndOfDay_def getStartOfDay_def endOfDay_span)
  have keep: "keepEvent parse off cfg event
            \<longleftrightarrow> getStartOfDay off (date cfg) \<le> t \<and> t \<le> getEndOfDay off (date cfg)"
    using assms by (simp add: keepEvent_def isDateInRange_def getStartOfDay_def getEndOfDay_def)
  show ?thesis unfolding keep using span by simp
qed

text \<open>
  The four boundary events of 15 January 2024 in a zone one hour ahead of UTC: the local day
  runs from 2024-01-14T23:00:00.000Z to 2024-01-15T22:59:59.999Z.
\<close>

theorem dateFilter_inclusive_witness:
  "keepEvent isoParse 3600000 cfgAll (pushAt ''2024-01-14T23:00:00.000Z'' ''acme/api'' [pcAlice])
   \<and> keepEvent isoParse 3600000 cfgAll (pushAt ''2024-01-15T22:59:59.999Z'' ''acme/api'' [pcAlice])
   \<and> \<not> keepEvent isoParse 3600000 cfgAll (pushAt ''2024-01-14T22:59:59.999Z'' ''acme/api'' [pcAlice])
   \<and> \<not> keepEvent isoParse 3600000 cfgAll (pushAt ''2024-01-15T23:00:00.000Z'' ''acme/api'' [pcAlice])"
proof -
  have s: "getStartOfDay 3600000 (date cfgAll) = 1705273200000"
    and e: "getEndOfDay 3600000 (date cfgAll) = 1705359599999"
    by code_simp+
  have p1: "isoParse ''2024-01-14T23:00:00.000Z'' = Some 1705273200000"
    and p2: "isoParse ''2024-01-15T22:59:59.999Z'' = Some 1705359599999"
    and p3: "isoParse ''2024-01-14T22:59:59.999Z'' = Some 1705273199999"
    and p4: "isoParse ''2024-01-15T23:00:00.000Z'' = Some 1705359600000"
    by code_simp+
  have m: "\<And>t. repoMatch cfgAll (pushAt t ''acme/api'' [pcAlice])"
    "\<And>t. userMatch cfgAll (pushAt t ''acme/api'' [pcAlice])"
    by (simp_all add: repoMatch_def userMatch_def)
  have k1: "keepEvent isoParse 3600000 cfgAll (pushAt ''2024-01-14T23:00:00.000Z'' ''acme/api'' [pcAlice])"
    using dateFilter_inclusive [of "pushAt ''2024-01-14T23:00:00.000Z'' ''acme/api'' [pcAlice]"
        cfgAll isoParse 1705273200000 3600000] m p1 s
    by simp
  have k2: "keepEvent isoParse 3600000 cfgAll (pushAt ''2024-01-15T22:59:59.999Z'' ''acme/api'' [pcAlice])"
    using dateFilter_inclusive [of "pushAt ''2024-01-15T22:59:59.999Z'' ''acme/api'' [pcAlice]"
        cfgAll isoParse 1705359599999 3600000] m p2 e
    by simp
  have k3: "\<not> keepEvent isoParse 3600000 cfgAll (pushAt ''2024-01-14T22:59:59.999Z'' ''acme/api'' [pcAlice])"
    using dateFilter_inclusive [of "pushAt ''2024-01-14T22:59:59.999Z'' ''acme/api'' [pcAlice]"
        cfgAll isoParse 1705273199999 3600000] m p3 s
    by simp
  have k4: "\<not> keepEvent isoParse 3600000 cfgAll (pushAt ''2024-01-15T23:00:00.000Z'' ''acme/api'' [pcAlice])"
    using dateFilter_inclusive [of "pushAt ''2024-01-15T23:00:00.000Z'' ''acme/api'' [pcAlice]"
        cfgAll isoParse 1705359600000 3600000] m p4 e
    by simp
  from k1 k2 k3 k4 show ?thesis by blast
qed

text \<open>
  Claim C8: every Contribution returned by \<open>process\<close> has a non-empty commit list: an event
  whose commits all fail the per-commit author filter contributes no Contribution entry at
  all (the result is the same as without the event).
\<close>

theorem process_contributions_nonempty:
  "(\<forall>c\<in>set (process parse localeCompare off cfg events). commits c \<noteq> [])
   \<and> (\<forall>(e::GitHubEvent) pcs. payload_commits e = Some pcs
         \<and> filter (\<lambda>commit. length (targetUsers cfg) = 0
                            \<or> author_name commit \<in> set (targetUsers cfg)) pcs = []
       \<longrightarrow> process parse localeCompare off cfg (before @ e # after)
           = process parse localeCompare off cfg (before @ after))"
proof
  show "\<forall>c\<in>set (process parse localeCompare off cfg events). commits c \<noteq> []"
    unfolding set_process groupContributions_def Let_def
    by (rule foldl_processEvent_nonempty) simp
next
  show "\<forall>(e::GitHubEvent) pcs. payload_commits e = Some pcs
         \<and> filter (\<lambda>commit. length (targetUsers cfg) = 0
                            \<or> author_name commit \<in> set (targetUsers cfg)) pcs = []
       \<longrightarrow> process parse localeCompare off cfg (before @ e # after)
           = process parse localeCompare off cfg (before @ after)"
  proof (intro allI impI)
    fix e :: GitHubEvent and pcs
    assume h: "payload_commits e = Some pcs
         \<and> filter (\<lambda>commit. length (targetUsers cfg) = 0
                            \<or> author_name commit \<in> set (targetUsers cfg)) pcs = []"
    then have "userCommits cfg e pcs = []" by (simp add: userCommits_def)
    with h have step: "\<And>cs. processEvent cfg cs e = cs"
      by (simp add: processEvent_no_userCommits)
    show "process parse localeCompare off cfg (before @ e # after)
           = process parse localeCompare off cfg (before @ after)"
      by (simp add: process_def groupContributions_def step)
  qed
qed

text \<open>
  With \<open>alice\<close> as the target user: a push to \<open>acme/api\<close> with a commit of hers, then a
  push to \<open>acme/web\<close> with a commit of \<open>bob\<close> only. The result has the one Contribution
  of \<open>acme/api\<close>; the second event leaves none.
\<close>

theorem process_contributions_nonempty_witness:
  "process isoParse lexCompare 0 cfgAlice
      [pushAt ''2024-01-15T10:00:00Z'' ''acme/api'' [pcAlice],
       pushAt ''2024-01-15T11:00:00Z'' ''acme/web'' [pcBob]]
     = [\<lparr>repo = ''acme/api'',
         commits = [\<lparr>hash = ''abc1234'', message = ''fix login'', author = ''alice'',
                     timestamp = ''2024-01-15T10:00:00Z''\<rparr>]\<rparr>]
   \<and> list_all (\<lambda>c. commits c \<noteq> [])
        (process isoParse lexCompare 0 cfgAlice
          [pushAt ''2024-01-15T10:00:00Z'' ''acme/api'' [pcAlice],
           pushAt ''2024-01-15T11:00:00Z'' ''acme/web'' [pcBob]])
   \<and> process isoParse lexCompare 0 cfgAlice
        ([pushAt ''2024-01-15T10:00:00Z'' ''acme/api'' [pcAlice]]
          @ pushAt ''2024-01-15T11:00:00Z'' ''acme/web'' [pcBob] # [])
     = process isoParse lexCompare 0 cfgAlice
         ([pushAt ''2024-01-15T10:00:00Z'' ''acme/api'' [pcAlice]] @ [])"
proof -
  have v: "process isoParse lexCompare 0 cfgAlice
      [pushAt ''2024-01-15T10:00:00Z'' ''acme/api'' [pcAlice],
       pushAt ''2024-01-15T11:00:00Z'' ''acme/web'' [pcBob]]
     = [\<lparr>repo = ''acme/api'',
         commits = [\<lparr>hash = ''abc1234'', message = ''fix login'', author = ''alice'',
                     timestamp = ''2024-01-15T10:00:00Z''\<rparr>]\<rparr>]"
    by code_simp
  have h: "payload_commits (pushAt ''2024-01-15T11:00:00Z'' ''acme/web'' [pcBob]) = Some [pcBob]
     \<and> filter (\<lambda>commit. length (targetUsers cfgAlice) = 0
                        \<or> author_name commit \<in> set (targetUsers cfgAlice)) [pcBob] = []"
    by simp
  note t = process_contributions_nonempty [of isoParse lexCompare 0 cfgAlice
      "[pushAt ''2024-01-15T10:00:00Z'' ''acme/api'' [pcAlice],
        pushAt ''2024-01-15T11:00:00Z'' ''acme/web'' [pcBob]]"
      "[pushAt ''2024-01-15T10:00:00Z'' ''acme/api'' [pcAlice]]" "[]"]
  from t have "\<forall>c\<in>set (process isoParse lexCompare 0 cfgAlice
          [pushAt ''2024-01-15T10:00:00Z'' ''acme/api'' [pcAlice],
           pushAt ''2024-01-15T11:00:00Z'' ''acme/web'' [pcBob]]). commits c \<noteq> []"
    by (rule conjunct1)
  then have a: "list_all (\<lambda>c. commits c \<noteq> [])
        (process isoParse lexCompare 0 cfgAlice
          [pushAt ''2024-01-15T10:00:00Z'' ''acme/api'' [pcAlice],
           pushAt ''2024-01-15T11:00:00Z'' ''acme/web'' [pcBob]])"
    by (simp only: list_all_iff)
  from t h have b: "process isoParse lexCompare 0 cfgAlice
        ([pushAt ''2024-01-15T10:00:00Z'' ''acme/api'' [pcAlice]]
          @ pushAt ''2024-01-15T11:00:00Z'' ''acme/web'' [pcBob] # [])
     = process isoParse lexCompare 0 cfgAlice
         ([pushAt ''2024-01-15T10:00:00Z'' ''acme/api'' [pcAlice]] @ [])"
    by blast
  from v a b show ?thesis by (intro conjI)
qed


section \<open>Configuration: short repository names\<close>

lemma loadAppConfig_org:
  "loadAppConfig env d0 mb = Inr config \<Longrightarrow>
     organization config = (case GITHUB_ORG env of None \<Rightarrow> None | Some g \<Rightarrow> if g = [] then None else Some g)
     \<and> targetRepos config = splitList (TARGET_REPOS env)"
  by (auto simp: loadAppConfig_def split: option.splits if_splits)

lemma main_fails_without_org:
  assumes "list_ex (\<lambda>r. \<not> includesSlash r) (splitList (TARGET_REPOS env))"
    and "GITHUB_ORG env = None \<or> GITHUB_ORG env = Some []"
  shows "main parse localeCompare toISO off api env d0 mb = \<lparr>requests = [], exitCode = 1, reported = None\<rparr>"
proof (cases "loadAppConfig env d0 mb")
  case (Inl e)
  then show ?thesis by (simp add: main_def)
next
  case (Inr config)
  from loadAppConfig_org [OF Inr] assms
  have "organization config = None" and "list_ex (\<lambda>r. \<not> includesSlash r) (targetRepos config)"
    by auto
  then have "\<exists>e. resolveShortNames config = Inl e"
    by (simp add: resolveShortNames_def)
  then show ?thesis using Inr by (auto simp: main_def)
qed

text \<open>
  Claim C9: if the configured target-repo list contains an entry without a \<open>/\<close> and no
  organization is configured, the run fails fatally (exit code 1) before any network call;
  if an organization is configured, such entries are expanded to \<open>org/name\<close> before use.

  First part, from the environment: \<open>TARGET_REPOS\<close> has a short entry and \<open>GITHUB_ORG\<close>
  is unset or empty; then no request is sent, the exit code is 1 and nothing is reported.
  Second part: with an organization, the rest of \<open>main\<close> runs on the configuration whose
  short entries are replaced by \<open>org/name\<close>, and every entry then contains a \<open>/\<close>.
\<close>

theorem main_short_repo_names:
  "(list_ex (\<lambda>r. \<not> includesSlash r) (splitList (TARGET_REPOS env))
      \<and> (GITHUB_ORG env = None \<or> GITHUB_ORG env = Some [])
    \<longrightarrow> requests (main parse localeCompare toISO off api env d0 mb) = []
        \<and> exitCode (main parse localeCompare toISO off api env d0 mb) = 1
        \<and> reported (main parse localeCompare toISO off api env d0 mb) = None)
   \<and> (loadAppConfig env d0 mb = Inr config
      \<and> list_ex (\<lambda>r. \<not> includesSlash r) (targetRepos config)
      \<and> organization config = Some org
    \<longrightarrow> main parse localeCompare toISO off api env d0 mb
          = runPipeline parse localeCompare toISO off api
              (config\<lparr>targetRepos :=
                 map (\<lambda>r. if includesSlash r then r else org @ ''/'' @ r) (targetRepos config)\<rparr>)
        \<and> list_all includesSlash
            (map (\<lambda>r. if includesSlash r then r else org @ ''/'' @ r) (targetRepos config)))"
proof (intro conjI impI)
  assume h: "list_ex (\<lambda>r. \<not> includesSlash r) (splitList (TARGET_REPOS env))
      \<and> (GITHUB_ORG env = None \<or> GITHUB_ORG env = Some [])"
  then have m: "main parse localeCompare toISO off api env d0 mb = \<lparr>requests = [], exitCode = 1, reported = None\<rparr>"
    by (simp add: main_fails_without_org)
  show "requests (main parse localeCompare toISO off api env d0 mb) = []"
    and "exitCode (main parse localeCompare toISO off api env d0 mb) = 1"
    and "reported (main parse localeCompare toISO off api env d0 mb) = None"
    by (simp_all add: m)
next
  assume h: "loadAppConfig env d0 mb = Inr config
      \<and> list_ex (\<lambda>r. \<not> includesSlash r) (targetRepos config)
      \<and> organization config = Some org"
  then have "org \<noteq> []"
    using loadAppConfig_org [of env d0 mb config] by (auto split: option.splits if_splits)
  then have "resolveShortNames config
      = Inr (config\<lparr>targetRepos :=
                 map (\<lambda>r. if includesSlash r then r else org @ ''/'' @ r) (targetRepos config)\<rparr>)"
    using h by (simp add: resolveShortNames_def)
  then show "main parse localeCompare toISO off api env d0 mb
          = runPipeline parse localeCompare toISO off api
              (config\<lparr>targetRepos :=
                 map (\<lambda>r. if includesSlash r then r else org @ ''/'' @ r) (targetRepos config)\<rparr>)"
    using h by (simp add: main_def)
  show "list_all includesSlash
            (map (\<lambda>r. if includesSlash r then r else org @ ''/'' @ r) (targetRepos config))"
    by (auto simp: list_all_iff includesSlash_def)
qed

text \<open>
  \<open>TARGET_REPOS=myrepo\<close> with no \<open>GITHUB_ORG\<close>: the run fails with no request sent.
  \<open>TARGET_REPOS=myrepo, acme/api\<close> with \<open>GITHUB_ORG=acme\<close>: the run goes on with
  \<open>acme/myrepo\<close> and \<open>acme/api\<close>.
\<close>

theorem main_short_repo_names_witness:
  "requests (main isoParse lexCompare toISOString 0 apiTwo envShort noon 10) = []
   \<and> exitCode (main isoParse lexCompare toISOString 0 apiTwo envShort noon 10) = 1
   \<and> reported (main isoParse lexCompare toISOString 0 apiTwo envShort noon 10) = None
   \<and> main isoParse lexCompare toISOString 0 apiTwo envShortOrg noon 10
       = runPipeline isoParse lexCompare toISOString 0 apiTwo
           \<lparr>targetRepos = [''acme/myrepo'', ''acme/api''], targetUsers = [''alice''],
            date = noon, debug = False, token = ''ghp_example'', organization = Some ''acme'',
            checkPreviousDay = False, maxBranches = 10\<rparr>"
proof -
  have s: "splitList (TARGET_REPOS envShort) = [''myrepo'']"
    by code_simp
  have h1: "list_ex (\<lambda>r. \<not> includesSlash r) (splitList (TARGET_REPOS envShort))
      \<and> (GITHUB_ORG envShort = None \<or> GITHUB_ORG envShort = Some [])"
    unfolding s by (simp add: includesSlash_def)
  have v: "loadAppConfig envShortOrg noon 10
      = Inr \<lparr>targetRepos = [''myrepo'', ''acme/api''], targetUsers = [''alice''],
            date = noon, debug = False, token = ''ghp_example'', organization = Some ''acme'',
            checkPreviousDay = False, maxBranches = 10\<rparr>"
    by code_simp
  have h2: "list_ex (\<lambda>r. \<not> includesSlash r) [''myrepo'', ''acme/api'']"
    by (simp add: includesSlash_def)
  have e: "map (\<lambda>r. if includesSlash r then r else ''acme'' @ ''/'' @ r) [''myrepo'', ''acme/api'']
      = [''acme/myrepo'', ''acme/api'']"
    by (simp add: includesSlash_def)
  note t1 = main_short_repo_names [of envShort isoParse lexCompare toISOString 0 apiTwo noon 10]
  note t2 = main_short_repo_names [of envShortOrg isoParse lexCompare toISOString 0 apiTwo noon 10
      "\<lparr>targetRepos = [''myrepo'', ''acme/api''], targetUsers = [''alice''],
            date = noon, debug = False, token = ''ghp_example'', organization = Some ''acme'',
            checkPreviousDay = False, maxBranches = 10\<rparr>" "''acme''"]
  from t1 h1 have a: "requests (main isoParse lexCompare toISOString 0 apiTwo envShort noon 10) = []
   \<and> exitCode (main isoParse lexCompare toISOString 0 apiTwo envShort noon 10) = 1
   \<and> reported (main isoParse lexCompare toISOString 0 apiTwo envShort noon 10) = None"
    by blast
  from t2 v h2 e have b: "main isoParse lexCompare toISOString 0 apiTwo envShortOrg noon 10
       = runPipeline isoParse lexCompare toISOString 0 apiTwo
           \<lparr>targetRepos = [''acme/myrepo'', ''acme/api''], targetUsers = [''alice''],
            date = noon, debug = False, token = ''ghp_example'', organization = Some ''acme'',
            checkPreviousDay = False, maxBranches = 10\<rparr>"
    by simp
  from a b show ?thesis by simp
qed

section \<open>Grouping by repository and the order handed to the Reporter\<close>






section \<open>Timestamps of the commits\<close>

text \<open>
  Claim C10, as stated: every Commit produced by \<open>process\<close> carries the enclosing event's
  \<open>created_at\<close> as its timestamp and a hash equal to the first 7 characters of the commit's
  SHA; in the commit-aggregation path, where \<open>fetchEvents\<close> builds one push event per
  repository with \<open>created_at\<close> set to the start-of-day instant, all commits of a
  repository share that timestamp, and the Reporter's descending sort is a no-op among them.

  \<open>fetchEvents\<close> returns the built events followed by the public events of the target
  users, and \<open>process\<close> groups both by repository. For the target user \<open>alice\<close>, whose
  public events hold a push to \<open>acme/api\<close> at 10:00, the Contribution of \<open>acme/api\<close>
  has two commits of 00:00 and then one of 10:00, and the Reporter's sort moves the last one
  to the front.
\<close>

theorem aggregated_commits_mixed_timestamps:
  "reported (main isoParse lexCompare toISOString 0 apiPub envAlice noon 10)
     = Some (noon,
         [\<lparr>repo = ''acme/api'',
           commits = [\<lparr>hash = ''2222222'', message = ''second'', author = ''alice'',
                       timestamp = ''2024-01-15T00:00:00.000Z''\<rparr>,
                      \<lparr>hash = ''3333333'', message = ''third'', author = ''alice'',
                       timestamp = ''2024-01-15T00:00:00.000Z''\<rparr>,
                      \<lparr>hash = ''abc1234'', message = ''fix login'', author = ''alice'',
                       timestamp = ''2024-01-15T10:00:00Z''\<rparr>]\<rparr>])
   \<and> sortBy (compareFn isoParse)
        [\<lparr>hash = ''2222222'', message = ''second'', author = ''alice'',
          timestamp = ''2024-01-15T00:00:00.000Z''\<rparr>,
         \<lparr>hash = ''3333333'', message = ''third'', author = ''alice'',
          timestamp = ''2024-01-15T00:00:00.000Z''\<rparr>,
         \<lparr>hash = ''abc1234'', message = ''fix login'', author = ''alice'',
          timestamp = ''2024-01-15T10:00:00Z''\<rparr>]
       = [\<lparr>hash = ''abc1234'', message = ''fix login'', author = ''alice'',
           timestamp = ''2024-01-15T10:00:00Z''\<rparr>,
          \<lparr>hash = ''2222222'', message = ''second'', author = ''alice'',
           timestamp = ''2024-01-15T00:00:00.000Z''\<rparr>,
          \<lparr>hash = ''3333333'', message = ''third'', author = ''alice'',
           timestamp = ''2024-01-15T00:00:00.000Z''\<rparr>]"
  by code_simp

text \<open>
  Claim C10, amended: every Commit produced by \<open>process\<close> carries the enclosing event's
  \<open>created_at\<close> as its timestamp and a hash equal to the first 7 characters of the commit's
  SHA. The events that \<open>fetchEvents\<close> returns are the events built in the loop over the
  repositories (\<open>synth\<close>), one per repository, each a push event with \<open>created_at\<close> set to
  the ISO string of the start of the day, followed by the public events of the target users.
  In the result of \<open>process\<close> on the events fetched, every Contribution of a repository
  to which no public event contributes (none that passes the filters with a qualifying
  commit) has all its commits at the start-of-day timestamp, and the sort under the
  Reporter's comparator returns its commit list unchanged, whatever the date parser.
\<close>

theorem commits_carry_event_timestamp:
  "(\<forall>c\<in>set (process parse localeCompare off cfg events). \<forall>k\<in>set (commits c).
       \<exists>e\<in>set events. repo_name e = repo c
         \<and> (\<exists>pcs. payload_commits e = Some pcs
              \<and> (\<exists>pc\<in>set pcs. k = \<lparr>hash = take 7 (sha pc), message = commit_message pc,
                                     author = author_name pc, timestamp = created_at e\<rparr>)))
   \<and> (\<exists>synth. snd (fetchEvents api toISO off users targets org d mb)
                  = synth @ snd (userEvents api users)
         \<and> distinct (map repo_name synth)
         \<and> (\<forall>e\<in>set synth. event_type e = ''PushEvent''
                \<and> created_at e = toISO (getStartOfDay off d))
         \<and> (\<forall>c\<in>set (process parse localeCompare off cfg
                         (snd (fetchEvents api toISO off users targets org d mb))).
                repo c \<notin> repo_name ` set
                    (filter (\<lambda>e. keepEvent parse off cfg e
                                  \<and> (case payload_commits e of None \<Rightarrow> False
                                      | Some pcs \<Rightarrow> userCommits cfg e pcs \<noteq> []))
                       (snd (userEvents api users)))
                \<longrightarrow> (\<forall>k\<in>set (commits c). timestamp k = toISO (getStartOfDay off d))
                    \<and> sortBy (compareFn parse2) (commits c) = commits c))"
proof (intro conjI)
  show "\<forall>c\<in>set (process parse localeCompare off cfg events). \<forall>k\<in>set (commits c).
       \<exists>e\<in>set events. repo_name e = repo c
         \<and> (\<exists>pcs. payload_commits e = Some pcs
              \<and> (\<exists>pc\<in>set pcs. k = \<lparr>hash = take 7 (sha pc), message = commit_message pc,
                                     author = author_name pc, timestamp = created_at e\<rparr>))"
    by (rule process_inv) (auto simp: userCommits_def toCommit_def)
next
  from fetchEvents_shape [of api toISO off users targets org d mb] obtain repos where
    r: "distinct repos"
      "snd (fetchEvents api toISO off users targets org d mb)
         = snd (repoEvents api (toISO (getStartOfDay off d))
                  (toISO (getEndOfDay off (getStartOfDay off d))) mb repos)
           @ snd (userEvents api users)"
    by blast
  let ?synth = "snd (repoEvents api (toISO (getStartOfDay off d))
                  (toISO (getEndOfDay off (getStartOfDay off d))) mb repos)"
  let ?pub = "snd (userEvents api users)"
  let ?contrib = "filter (\<lambda>e. keepEvent parse off cfg e
                                  \<and> (case payload_commits e of None \<Rightarrow> False
                                      | Some pcs \<Rightarrow> userCommits cfg e pcs \<noteq> [])) ?pub"
  have p: "\<forall>e\<in>set ?synth. event_type e = ''PushEvent''
                  \<and> created_at e = toISO (getStartOfDay off d)"
    using repoEvents_props [of api "toISO (getStartOfDay off d)"
        "toISO (getEndOfDay off (getStartOfDay off d))" mb repos] by blast
  have dn: "distinct (map repo_name ?synth)"
    using r(1) by (rule repoEvents_distinct)
  have ts: "\<forall>c\<in>set (process parse localeCompare off cfg (?synth @ ?pub)).
              \<forall>k\<in>set (commits c).
                 repo c \<notin> repo_name ` set ?contrib \<longrightarrow> timestamp k = toISO (getStartOfDay off d)"
  proof (rule process_inv, intro ballI impI allI)
    fix e pcs k
    assume e: "e \<in> set (?synth @ ?pub)" and keep: "keepEvent parse off cfg e"
      and pc: "payload_commits e = Some pcs" and k: "k \<in> set (userCommits cfg e pcs)"
      and nc: "repo_name e \<notin> repo_name ` set ?contrib"
    have tk: "timestamp k = created_at e"
      using k by (auto simp: userCommits_def toCommit_def)
    have "e \<notin> set ?pub"
    proof
      assume "e \<in> set ?pub"
      then have "e \<in> set ?contrib" using keep pc k by auto
      then show False using nc by blast
    qed
    then have "e \<in> set ?synth" using e by simp
    then show "timestamp k = toISO (getStartOfDay off d)" using p tk by simp
  qed
  have srt: "\<forall>c\<in>set (process parse localeCompare off cfg
                         (snd (fetchEvents api toISO off users targets org d mb))).
                repo c \<notin> repo_name ` set ?contrib
                \<longrightarrow> (\<forall>k\<in>set (commits c). timestamp k = toISO (getStartOfDay off d))
                    \<and> sortBy (compareFn parse2) (commits c) = commits c"
  proof (intro ballI impI)
    fix c
    assume c: "c \<in> set (process parse localeCompare off cfg
                         (snd (fetchEvents api toISO off users targets org d mb)))"
      and nc: "repo c \<notin> repo_name ` set ?contrib"
    have a: "\<forall>k\<in>set (commits c). timestamp k = toISO (getStartOfDay off d)"
      using ts c nc unfolding r(2) by blast
    then have "sortBy (compareFn parse2) (commits c) = commits c"
      by (rule sortBy_same_timestamp)
    with a show "(\<forall>k\<in>set (commits c). timestamp k = toISO (getStartOfDay off d))
                    \<and> sortBy (compareFn parse2) (commits c) = commits c" by simp
  qed
  from r(2) dn p srt
  show "\<exists>synth. snd (fetchEvents api toISO off users targets org d mb)
                  = synth @ snd (userEvents api users)
         \<and> distinct (map repo_name synth)
         \<and> (\<forall>e\<in>set synth. event_type e = ''PushEvent''
                \<and> created_at e = toISO (getStartOfDay off d))
         \<and> (\<forall>c\<in>set (process parse localeCompare off cfg
                         (snd (fetchEvents api toISO off users targets org d mb))).
                repo c \<notin> repo_name ` set ?contrib
                \<longrightarrow> (\<forall>k\<in>set (commits c). timestamp k = toISO (getStartOfDay off d))
                    \<and> sortBy (compareFn parse2) (commits c) = commits c)"
    by blast
qed

text \<open>
  The run with no target user on the account with \<open>acme/web\<close> and \<open>acme/api\<close>, in the
  UTC zone: there is no public event, both built events carry \<open>2024-01-15T00:00:00.000Z\<close>,
  and so do the three commits of the two Contributions.
\<close>

theorem commits_carry_event_timestamp_witness:
  "snd (fetchEvents apiTwo toISOString 0 [] [] None noon 10)
     = [synthEvent ''2024-01-15T00:00:00.000Z'' ''acme/web'' [c1],
        synthEvent ''2024-01-15T00:00:00.000Z'' ''acme/api'' [c2, c3]]
   \<and> process isoParse lexCompare 0 cfgAll
        (snd (fetchEvents apiTwo toISOString 0 [] [] None noon 10))
     = [\<lparr>repo = ''acme/api'',
         commits = [\<lparr>hash = ''2222222'', message = ''second'', author = ''alice'',
                     timestamp = ''2024-01-15T00:00:00.000Z''\<rparr>,
                    \<lparr>hash = ''3333333'', message = ''third'', author = ''alice'',
                     timestamp = ''2024-01-15T00:00:00.000Z''\<rparr>]\<rparr>,
        \<lparr>repo = ''acme/web'',
         commits = [\<lparr>hash = ''1111111'', message = ''first'', author = ''alice'',
                     timestamp = ''2024-01-15T00:00:00.000Z''\<rparr>]\<rparr>]
   \<and> list_all
        (\<lambda>c. list_all (\<lambda>k. timestamp k = ''2024-01-15T00:00:00.000Z'') (commits c)
             \<and> sortBy (compareFn isoParse) (commits c) = commits c)
        (process isoParse lexCompare 0 cfgAll
           (snd (fetchEvents apiTwo toISOString 0 [] [] None noon 10)))"
proof -
  let ?fetched = "snd (fetchEvents apiTwo toISOString 0 [] [] None noon 10)"
  have f: "?fetched
     = [synthEvent ''2024-01-15T00:00:00.000Z'' ''acme/web'' [c1],
        synthEvent ''2024-01-15T00:00:00.000Z'' ''acme/api'' [c2, c3]]"
    by code_simp
  have v: "process isoParse lexCompare 0 cfgAll ?fetched
     = [\<lparr>repo = ''acme/api'',
         commits = [\<lparr>hash = ''2222222'', message = ''second'', author = ''alice'',
                     timestamp = ''2024-01-15T00:00:00.000Z''\<rparr>,
                    \<lparr>hash = ''3333333'', message = ''third'', author = ''alice'',
                     timestamp = ''2024-01-15T00:00:00.000Z''\<rparr>]\<rparr>,
        \<lparr>repo = ''acme/web'',
         commits = [\<lparr>hash = ''1111111'', message = ''first'', author = ''alice'',
                     timestamp = ''2024-01-15T00:00:00.000Z''\<rparr>]\<rparr>]"
    by code_simp
  have u: "snd (userEvents apiTwo []) = []"
    by simp
  have iso: "toISOString (getStartOfDay 0 noon) = ''2024-01-15T00:00:00.000Z''"
    by code_simp
  note t = commits_carry_event_timestamp [of isoParse lexCompare 0 cfgAll ?fetched apiTwo
      toISOString "[]" "[]" None noon 10 isoParse]
  from t have "\<forall>c\<in>set (process isoParse lexCompare 0 cfgAll ?fetched).
                repo c \<notin> repo_name ` set
                    (filter (\<lambda>e. keepEvent isoParse 0 cfgAll e
                                  \<and> (case payload_commits e of None \<Rightarrow> False
                                      | Some pcs \<Rightarrow> userCommits cfgAll e pcs \<noteq> []))
                       (snd (userEvents apiTwo [])))
                \<longrightarrow> (\<forall>k\<in>set (commits c). timestamp k = toISOString (getStartOfDay 0 noon))
                    \<and> sortBy (compareFn isoParse) (commits c) = commits c"
    by blast
  then have "\<forall>c\<in>set (process isoParse lexCompare 0 cfgAll ?fetched).
          (\<forall>k\<in>set (commits c). timestamp k = ''2024-01-15T00:00:00.000Z'')
          \<and> sortBy (compareFn isoParse) (commits c) = commits c"
    unfolding u iso by simp
  then have a: "list_all
        (\<lambda>c. list_all (\<lambda>k. timestamp k = ''2024-01-15T00:00:00.000Z'') (commits c)
             \<and> sortBy (compareFn isoParse) (commits c) = commits c)
        (process isoParse lexCompare 0 cfgAll ?fetched)"
    by (simp only: list_all_iff)
  from f v a show ?thesis by (intro conjI)
qed


end
